(* ===== verification/Fluent_Prelude.thy ===== *)
theory Fluent_Prelude
  imports Main "HOL-Library.Word" "HOL-Library.AList" "HOL-Library.Signed_Division"
begin

text \<open>
  What every component of the development shares: Go errors, Go channels, decimal
  formatting, Go maps with string keys, and the collections of rewrite rules the component
  proofs draw on. A Go string and a Go byte slice are both \<open>char list\<close>: a HOL character is
  exactly one byte, so the conversions between the two are the identity.
\<close>

named_theorems builder_simps "what each fluent setter leaves in each field"
named_theorems world_simps "what each operation leaves in each part of a component's state"

type_synonym bytes = "char list"

section \<open>Runs of a step relation\<close>

lemma rtranclp_invariant:
  "rtranclp R s0 s \<Longrightarrow> I s0 \<Longrightarrow> (\<And>s t. R s t \<Longrightarrow> I s \<Longrightarrow> I t) \<Longrightarrow> I s"
  by (induction rule: rtranclp_induct) auto

text \<open>
  The contract of a component that is a step relation: a predicate that holds at the start and
  that every step keeps. Each such component interprets it on its own steps and invariant.
\<close>

locale invariant_system =
  fixes start :: "'s \<Rightarrow> bool"
    and step :: "'s \<Rightarrow> 's \<Rightarrow> bool"
    and inv :: "'s \<Rightarrow> bool"
  assumes start_inv: "start s \<Longrightarrow> inv s"
    and step_inv: "step s t \<Longrightarrow> inv s \<Longrightarrow> inv t"
begin

lemma run_inv: "rtranclp step s t \<Longrightarrow> inv s \<Longrightarrow> inv t"
  by (erule rtranclp_invariant) (auto intro: step_inv)

lemma reachable_inv: "rtranclp step s0 s \<Longrightarrow> start s0 \<Longrightarrow> inv s"
  using run_inv start_inv by blast

end

lemmas run_step = converse_rtranclp_into_rtranclp
lemmas run_end = rtranclp.rtrancl_refl

section \<open>Errors\<close>

text \<open>
  An \<open>error\<close> result is an option: \<open>None\<close> is Go's nil. The two context errors are values of
  the standard library; \<open>Wrapped\<close> is what \<open>errors.Wrap\<close> builds (it maps nil to nil).
\<close>

datatype go_error =
    Err string
  | Canceled
  | DeadlineExceeded
  | Wrapped go_error string

fun error_text :: "go_error \<Rightarrow> string" where
  "error_text (Err s) = s"
| "error_text Canceled = ''context canceled''"
| "error_text DeadlineExceeded = ''context deadline exceeded''"
| "error_text (Wrapped e s) = s @ '': '' @ error_text e"

definition wrap :: "go_error option \<Rightarrow> string \<Rightarrow> go_error option" where
  "wrap e s = map_option (\<lambda>x. Wrapped x s) e"

lemma wrap_None_iff [simp]: "wrap e s = None \<longleftrightarrow> e = None"
  by (simp add: wrap_def)

section \<open>Panics\<close>

text \<open>
  A Go statement that may panic, or block for ever on a channel nobody empties, returns an
  outcome.
\<close>

datatype 'a outcome = Value 'a | Panic string | Stuck

fun bind_outcome :: "'a outcome \<Rightarrow> ('a \<Rightarrow> 'b outcome) \<Rightarrow> 'b outcome" where
  "bind_outcome (Value x) f = f x"
| "bind_outcome (Panic s) f = Panic s"
| "bind_outcome Stuck f = Stuck"

lemma bind_outcome_Value_iff: "bind_outcome m f = Value y \<longleftrightarrow> (\<exists>x. m = Value x \<and> f x = Value y)"
  by (cases m) auto

section \<open>Channels\<close>

text \<open>
  A Go channel with its capacity, what is buffered in it and whether it was closed. Sending
  on a closed channel and closing it twice panic; a send on a full channel blocks, as does a
  receive on an open empty channel, which is \<open>None\<close>. A receive on a closed empty channel
  returns at once with the zero value, which is \<open>Some None\<close>.
\<close>

record 'a chan =
  ch_cap :: nat
  ch_buf :: "'a list"
  ch_closed :: bool

definition chan_make :: "nat \<Rightarrow> 'a chan" where
  "chan_make n = \<lparr>ch_cap = n, ch_buf = [], ch_closed = False\<rparr>"

definition chan_send :: "'a chan \<Rightarrow> 'a \<Rightarrow> 'a chan outcome" where
  "chan_send c x =
     (if ch_closed c then Panic ''send on closed channel''
      else if length (ch_buf c) < ch_cap c then Value (c\<lparr>ch_buf := ch_buf c @ [x]\<rparr>)
      else Stuck)"

text \<open>The non-blocking send \<open>select { case c <- x: default: }\<close>.\<close>

definition chan_offer :: "'a chan \<Rightarrow> 'a \<Rightarrow> 'a chan" where
  "chan_offer c x =
     (if length (ch_buf c) < ch_cap c then c\<lparr>ch_buf := ch_buf c @ [x]\<rparr> else c)"

definition chan_close :: "'a chan \<Rightarrow> 'a chan outcome" where
  "chan_close c =
     (if ch_closed c then Panic ''close of closed channel'' else Value (c\<lparr>ch_closed := True\<rparr>))"

definition chan_recv :: "'a chan \<Rightarrow> ('a option \<times> 'a chan) option" where
  "chan_recv c =
     (case ch_buf c of
        x # xs \<Rightarrow> Some (Some x, c\<lparr>ch_buf := xs\<rparr>)
      | [] \<Rightarrow> if ch_closed c then Some (None, c) else None)"

lemma chan_make_simps [simp]:
  "ch_cap (chan_make n) = n" "ch_buf (chan_make n) = []" "\<not> ch_closed (chan_make n)"
  by (simp_all add: chan_make_def)

lemma chan_offer_simps [simp]:
  "ch_cap (chan_offer c x) = ch_cap c" "ch_closed (chan_offer c x) = ch_closed c"
  by (simp_all add: chan_offer_def)

lemma chan_offer_nonempty: "0 < ch_cap c \<Longrightarrow> ch_buf (chan_offer c x) \<noteq> []"
  by (auto simp: chan_offer_def)

lemma chan_offer_bounded:
  "length (ch_buf c) \<le> ch_cap c \<Longrightarrow> length (ch_buf (chan_offer c x)) \<le> ch_cap c"
  by (auto simp: chan_offer_def)

lemma chan_recv_last:
  "chan_send c x = Value c' \<Longrightarrow> ch_buf c = [] \<Longrightarrow> chan_close c' = Value c'' \<Longrightarrow>
   chan_recv c'' = Some (Some x, c''\<lparr>ch_buf := []\<rparr>)"
  by (auto simp: chan_send_def chan_close_def chan_recv_def split: if_splits)

section \<open>Maps with string keys\<close>

text \<open>
  A Go map is an association list without repeated keys; \<open>map_get\<close> on a nil map is allowed in
  Go and finds nothing, writing to one panics, so the writers create the map first.
\<close>

type_synonym 'v gomap = "(string \<times> 'v) list"

definition map_get :: "'v gomap option \<Rightarrow> string \<Rightarrow> 'v option" where
  "map_get m k = (case m of None \<Rightarrow> None | Some t \<Rightarrow> map_of t k)"

definition map_put :: "'v gomap option \<Rightarrow> string \<Rightarrow> 'v \<Rightarrow> 'v gomap" where
  "map_put m k v = AList.update k v (case m of None \<Rightarrow> [] | Some t \<Rightarrow> t)"

definition map_delete :: "'v gomap option \<Rightarrow> string \<Rightarrow> 'v gomap option" where
  "map_delete m k = map_option (AList.delete k) m"

lemma map_get_None [simp]: "map_get None k = None"
  by (simp add: map_get_def)

lemma map_get_put [simp]: "map_get (Some (map_put m k v)) k' = (if k' = k then Some v else map_get m k')"
  by (auto simp: map_get_def map_put_def update_conv' split: option.split)

lemma map_get_delete [simp]: "map_get (map_delete m k) k' = (if k' = k then None else map_get m k')"
  by (auto simp: map_get_def map_delete_def delete_conv' split: option.split)

section \<open>strconv.FormatInt in base 10\<close>

definition digit_char :: "nat \<Rightarrow> char" where
  "digit_char d = char_of (48 + d)"

definition char_digit :: "char \<Rightarrow> nat" where
  "char_digit c = of_char c - 48"

fun format_nat :: "nat \<Rightarrow> string" where
  "format_nat n = (if n < 10 then [digit_char n] else format_nat (n div 10) @ [digit_char (n mod 10)])"

declare format_nat.simps [simp del]

definition format_int :: "int \<Rightarrow> string" where
  "format_int i = (if i < 0 then ''-'' @ format_nat (nat (- i)) else format_nat (nat i))"

definition parse_nat :: "string \<Rightarrow> nat" where
  "parse_nat s = foldl (\<lambda>a c. 10 * a + char_digit c) 0 s"

definition parse_int :: "string \<Rightarrow> int" where
  "parse_int s = (case s of c # cs \<Rightarrow> if c = CHR ''-'' then - int (parse_nat cs) else int (parse_nat s) | [] \<Rightarrow> 0)"

lemma char_digit_digit_char [simp]: "d < 10 \<Longrightarrow> char_digit (digit_char d) = d"
  by (simp add: char_digit_def digit_char_def)

lemma digit_char_not_minus [simp]: "d < 10 \<Longrightarrow> digit_char d \<noteq> CHR ''-''"
proof
  assume d: "d < 10" "digit_char d = CHR ''-''"
  then have "of_char (digit_char d) = (45 :: nat)" by simp
  then show False using d(1) by (simp add: digit_char_def)
qed

lemma format_nat_nonempty [simp]: "format_nat n \<noteq> []"
  by (subst format_nat.simps) simp

lemma parse_format_nat [simp]: "parse_nat (format_nat n) = n"
proof (induction n rule: format_nat.induct)
  case (1 n)
  show ?case
  proof (cases "n < 10")
    case True
    then show ?thesis by (subst format_nat.simps) (simp add: parse_nat_def)
  next
    case False
    then have "parse_nat (format_nat (n div 10)) = n div 10" by (rule 1)
    then have "parse_nat (format_nat n) = 10 * (n div 10) + n mod 10"
      using False by (subst format_nat.simps) (simp add: parse_nat_def)
    then show ?thesis by presburger
  qed
qed

lemma hd_format_nat: "hd (format_nat n) \<noteq> CHR ''-''"
proof (induction n rule: format_nat.induct)
  case (1 n)
  then show ?case by (subst format_nat.simps) (auto simp: hd_append)
qed

lemma parse_format_int [simp]: "parse_int (format_int i) = i"
proof (cases "i < 0")
  case True
  then show ?thesis by (simp add: format_int_def parse_int_def)
next
  case False
  obtain c cs where c: "format_nat (nat i) = c # cs"
    using format_nat_nonempty by (cases "format_nat (nat i)") auto
  then have "c \<noteq> CHR ''-''" using hd_format_nat [of "nat i"] by simp
  with False c have "parse_int (format_int i) = int (parse_nat (format_nat (nat i)))"
    by (simp add: format_int_def parse_int_def)
  with False show ?thesis by simp
qed

end
