(* ===== verification/Message_Queue.thy ===== *)
theory Message_Queue
  imports Fluent_Prelude
begin

text \<open>
  The buffer of outgoing messages, \<open>internal/message_queue.go\<close>: the operations as functions on
  the queue's state, and the contract they keep as the locale \<open>message_fifo\<close>. Their concurrent
  use is the theory \<open>Queue_Threads\<close>.
\<close>

section \<open>The queue and its operations\<close>

text \<open>
  The zero value has a nil notification channel and a nil list; \<open>initOnce\<close>, called first by
  every operation, creates both.
\<close>

record 'm message_queue =
  mq_messages :: "'m list option"
  mq_notify :: "unit chan option"

definition new_queue :: "'m message_queue" where
  "new_queue = \<lparr>mq_messages = None, mq_notify = None\<rparr>"

definition init_once :: "'m message_queue \<Rightarrow> 'm message_queue" where
  "init_once q = (if mq_notify q \<noteq> None then q
     else q\<lparr>mq_notify := Some (chan_make 1), mq_messages := Some []\<rparr>)"

definition queue_items :: "'m message_queue \<Rightarrow> 'm list" where
  "queue_items q = (case mq_messages q of None \<Rightarrow> [] | Some xs \<Rightarrow> xs)"

definition queue_len :: "'m message_queue \<Rightarrow> nat \<times> 'm message_queue" where
  "queue_len q = (let q1 = init_once q in (length (queue_items q1), q1))"

text \<open>
  \<open>Put\<close> is the append under the lock followed by the non-blocking send on the notification
  channel: two atomic actions, so that other threads can move between them.
\<close>

definition push_back :: "'m \<Rightarrow> 'm message_queue \<Rightarrow> 'm message_queue" where
  "push_back m q = (let q1 = init_once q in q1\<lparr>mq_messages := Some (queue_items q1 @ [m])\<rparr>)"

definition ring :: "'m message_queue \<Rightarrow> 'm message_queue" where
  "ring q = q\<lparr>mq_notify := map_option (\<lambda>c. chan_offer c ()) (mq_notify q)\<rparr>"

definition queue_put :: "'m \<Rightarrow> 'm message_queue \<Rightarrow> 'm message_queue" where
  "queue_put m q = ring (push_back m q)"

definition queue_commit :: "'m message_queue \<Rightarrow> 'm message_queue" where
  "queue_commit q = (let q1 = init_once q in
     case queue_items q1 of [] \<Rightarrow> q1 | m # ms \<Rightarrow> q1\<lparr>mq_messages := Some ms\<rparr>)"

text \<open>
  \<open>Peek\<close> is a loop: read the front; if there is none, wait for the notification or the
  context. Run alone (nobody puts meanwhile), it returns the front message, or the context's
  error, or it blocks having used up the notification. When both the notification and the
  context are ready, the \<open>select\<close> may take either first: \<open>pick\<close> says which.
\<close>

datatype 'm peek_result = Peeked 'm | PeekErr go_error | PeekBlocks

definition has_token :: "'m message_queue \<Rightarrow> bool" where
  "has_token q = (case mq_notify q of None \<Rightarrow> False | Some c \<Rightarrow> ch_buf c \<noteq> [])"

definition take_token :: "'m message_queue \<Rightarrow> 'm message_queue" where
  "take_token q = q\<lparr>mq_notify := map_option (\<lambda>c. c\<lparr>ch_buf := tl (ch_buf c)\<rparr>) (mq_notify q)\<rparr>"

definition queue_peek ::
    "bool \<Rightarrow> go_error option \<Rightarrow> 'm message_queue \<Rightarrow> 'm peek_result \<times> 'm message_queue" where
  "queue_peek pick ctx q = (let q1 = init_once q in
     case queue_items q1 of
       m # _ \<Rightarrow> (Peeked m, q1)
     | [] \<Rightarrow> (case ctx of
               None \<Rightarrow> (PeekBlocks, take_token q1)
             | Some e \<Rightarrow> (PeekErr e, if pick then take_token q1 else q1)))"

subsection \<open>What each operation leaves in the queue\<close>

lemma new_queue_items [simp]: "queue_items new_queue = []"
  by (simp add: queue_items_def new_queue_def)

text \<open>The list and the channel are created together, the channel with room for one token.\<close>

definition queue_wf :: "'m message_queue \<Rightarrow> bool" where
  "queue_wf q \<longleftrightarrow>
     (case mq_notify q of
        None \<Rightarrow> mq_messages q = None
      | Some c \<Rightarrow> mq_messages q \<noteq> None \<and> ch_cap c = 1 \<and> length (ch_buf c) \<le> 1 \<and> \<not> ch_closed c)"

lemma queue_wf_new [simp]: "queue_wf new_queue"
  by (simp add: queue_wf_def new_queue_def)

lemma init_once_items [simp]: "queue_wf q \<Longrightarrow> queue_items (init_once q) = queue_items q"
  by (auto simp: init_once_def queue_items_def queue_wf_def split: option.splits)

lemma init_once_wf [simp]: "queue_wf q \<Longrightarrow> queue_wf (init_once q)"
  by (auto simp: init_once_def queue_wf_def)

lemma init_once_created [simp]: "queue_wf q \<Longrightarrow> mq_notify (init_once q) \<noteq> None \<and> mq_messages (init_once q) \<noteq> None"
  by (auto simp: init_once_def queue_wf_def)

lemma init_once_idem [simp]: "init_once (init_once q) = init_once q"
  by (simp add: init_once_def)

lemma init_once_token [simp]: "has_token (init_once q) = has_token q"
  by (simp add: has_token_def init_once_def)

lemma push_back_items [simp]: "queue_wf q \<Longrightarrow> queue_items (push_back m q) = queue_items q @ [m]"
  by (simp add: push_back_def Let_def) (simp add: queue_items_def)

lemma push_back_wf [simp]: "queue_wf q \<Longrightarrow> queue_wf (push_back m q)"
  using init_once_wf [of q] init_once_created [of q]
  by (auto simp: push_back_def Let_def queue_wf_def split: option.splits)

lemma push_back_token [simp]: "has_token (push_back m q) = has_token q"
  using init_once_token [of q] by (simp add: push_back_def Let_def has_token_def)

lemma push_back_created: "queue_wf q \<Longrightarrow> mq_notify (push_back m q) \<noteq> None"
  using init_once_created [of q] by (simp add: push_back_def Let_def)

lemma ring_items [simp]: "queue_items (ring q) = queue_items q"
  by (simp add: ring_def queue_items_def)

lemma ring_created [simp]: "mq_notify (ring q) = None \<longleftrightarrow> mq_notify q = None"
  by (simp add: ring_def)

lemma ring_wf [simp]: "queue_wf q \<Longrightarrow> queue_wf (ring q)"
  using chan_offer_bounded [where x = "()"]
  by (auto simp: ring_def queue_wf_def split: option.splits) metis

lemma ring_token: "queue_wf q \<Longrightarrow> mq_notify q \<noteq> None \<Longrightarrow> has_token (ring q)"
  by (auto simp: ring_def has_token_def queue_wf_def chan_offer_def split: option.splits)

lemma take_token_items [simp]: "queue_items (take_token q) = queue_items q"
  by (simp add: take_token_def queue_items_def)

lemma take_token_created [simp]: "mq_notify (take_token q) = None \<longleftrightarrow> mq_notify q = None"
  by (simp add: take_token_def)

lemma take_token_wf [simp]: "queue_wf q \<Longrightarrow> queue_wf (take_token q)"
  by (auto simp: take_token_def queue_wf_def split: option.splits)

lemma queue_put_items [simp]: "queue_wf q \<Longrightarrow> queue_items (queue_put m q) = queue_items q @ [m]"
  by (simp add: queue_put_def)

lemma queue_put_wf [simp]: "queue_wf q \<Longrightarrow> queue_wf (queue_put m q)"
  by (simp add: queue_put_def)

lemma queue_commit_items [simp]: "queue_wf q \<Longrightarrow> queue_items (queue_commit q) = tl (queue_items q)"
  by (auto simp: queue_commit_def Let_def split: list.split) (simp add: queue_items_def)

lemma queue_commit_wf [simp]: "queue_wf q \<Longrightarrow> queue_wf (queue_commit q)"
  using init_once_wf [of q] init_once_created [of q]
  by (auto simp: queue_commit_def Let_def queue_wf_def split: list.split option.splits)

lemma queue_commit_token [simp]: "has_token (queue_commit q) = has_token q"
  using init_once_token [of q] by (simp add: queue_commit_def Let_def has_token_def split: list.split)

lemma queue_peek_items: "queue_wf q \<Longrightarrow> queue_items (snd (queue_peek pick ctx q)) = queue_items q"
  by (simp add: queue_peek_def Let_def split: list.split option.split)

lemma queue_peek_wf: "queue_wf q \<Longrightarrow> queue_wf (snd (queue_peek pick ctx q))"
  by (simp add: queue_peek_def Let_def split: list.split option.split)

lemma queue_peek_result: "queue_wf q \<Longrightarrow> fst (queue_peek pick ctx q) =
    (case queue_items q of m # _ \<Rightarrow> Peeked m
     | [] \<Rightarrow> (case ctx of None \<Rightarrow> PeekBlocks | Some e \<Rightarrow> PeekErr e))"
  by (simp add: queue_peek_def Let_def split: list.split option.split)

lemma queue_len_result: "queue_wf q \<Longrightarrow> fst (queue_len q) = length (queue_items q)"
  by (simp add: queue_len_def Let_def)

lemma queue_len_state: "queue_wf q \<Longrightarrow>
    queue_items (snd (queue_len q)) = queue_items q \<and> queue_wf (snd (queue_len q))"
  by (simp add: queue_len_def Let_def)

section \<open>The contract of the queue\<close>

locale message_fifo =
  fixes empty :: "'q"
    and put :: "'m \<Rightarrow> 'q \<Rightarrow> 'q"
    and peek :: "bool \<Rightarrow> go_error option \<Rightarrow> 'q \<Rightarrow> 'm peek_result \<times> 'q"
    and commit :: "'q \<Rightarrow> 'q"
    and len :: "'q \<Rightarrow> nat \<times> 'q"
    and items :: "'q \<Rightarrow> 'm list"
    and wf :: "'q \<Rightarrow> bool"
  assumes empty_wf: "wf empty" and empty_items: "items empty = []"
    and put_wf: "wf q \<Longrightarrow> wf (put m q)"
    and put_items: "wf q \<Longrightarrow> items (put m q) = items q @ [m]"
    and commit_wf: "wf q \<Longrightarrow> wf (commit q)"
    and commit_items: "wf q \<Longrightarrow> items (commit q) = tl (items q)"
    and peek_wf: "wf q \<Longrightarrow> wf (snd (peek pick ctx q))"
    and peek_items: "wf q \<Longrightarrow> items (snd (peek pick ctx q)) = items q"
    and peek_result: "wf q \<Longrightarrow> fst (peek pick ctx q) =
      (case items q of m # _ \<Rightarrow> Peeked m
       | [] \<Rightarrow> (case ctx of None \<Rightarrow> PeekBlocks | Some e \<Rightarrow> PeekErr e))"
    and len_state: "wf q \<Longrightarrow> items (snd (len q)) = items q \<and> wf (snd (len q))"
    and len_result: "wf q \<Longrightarrow> fst (len q) = length (items q)"
begin

lemma put_all: "wf q \<Longrightarrow> items (fold put ms q) = items q @ ms \<and> wf (fold put ms q)"
  by (induction ms arbitrary: q) (auto simp: put_items put_wf)

lemma peeked_front:
  "wf q \<Longrightarrow> peek pick ctx q = (Peeked m, q') \<Longrightarrow> wf q' \<and> items q' = items q \<and> items q = m # items (commit q')"
  using peek_result [of q pick ctx] peek_wf [of q pick ctx] peek_items [of q pick ctx]
  by (auto simp: commit_items split: list.splits option.splits)

lemma peek_failed:
  "wf q \<Longrightarrow> peek pick ctx q = (PeekErr e, q') \<Longrightarrow> items q = [] \<and> ctx = Some e \<and> wf q' \<and> items q' = []"
  using peek_result [of q pick ctx] peek_wf [of q pick ctx] peek_items [of q pick ctx]
  by (auto split: list.splits option.splits)

lemma peek_blocked:
  "wf q \<Longrightarrow> peek pick ctx q = (PeekBlocks, q') \<Longrightarrow> items q = [] \<and> ctx = None \<and> wf q' \<and> items q' = []"
  using peek_result [of q pick ctx] peek_wf [of q pick ctx] peek_items [of q pick ctx]
  by (auto split: list.splits option.splits)

lemma peek_ignores_context_when_full:
  "wf q \<Longrightarrow> items q = m # ms \<Longrightarrow> fst (peek pick ctx q) = Peeked m"
  by (simp add: peek_result)

lemma commit_put_commute:
  "wf q \<Longrightarrow> items q \<noteq> [] \<Longrightarrow> items (commit (put m q)) = items (put m (commit q))"
  by (simp add: commit_items put_items put_wf commit_wf)

text \<open>Peeking and committing \<open>n\<close> times takes out the first \<open>n\<close> messages, in the order of the puts.\<close>

lemma drain:
  "wf q \<Longrightarrow> items ((commit ^^ n) q) = drop n (items q) \<and> wf ((commit ^^ n) q)"
  by (induction n) (auto simp: commit_items commit_wf drop_Suc tl_drop)

lemma put_all_then_drain:
  "length ms = n \<Longrightarrow> items ((commit ^^ n) (fold put ms empty)) = []"
  using drain [of "fold put ms empty" n] put_all [of empty ms] by (simp add: empty_wf empty_items)

lemma nth_peeked:
  assumes "n < length ms"
  shows "fst (peek pick ctx ((commit ^^ n) (fold put ms empty))) = Peeked (ms ! n)"
proof -
  have "wf (fold put ms empty)" "items (fold put ms empty) = ms"
    using put_all [of empty ms] by (auto simp: empty_wf empty_items)
  with drain [of "fold put ms empty" n]
  have "items ((commit ^^ n) (fold put ms empty)) = ms ! n # drop (Suc n) ms"
    and "wf ((commit ^^ n) (fold put ms empty))"
    using assms by (auto simp: Cons_nth_drop_Suc)
  then show ?thesis by (simp add: peek_ignores_context_when_full)
qed

end

interpretation mq: message_fifo new_queue queue_put queue_peek queue_commit queue_len queue_items queue_wf
  by unfold_locales
    (auto simp: queue_peek_items queue_peek_wf queue_peek_result queue_len_result queue_len_state)

end
