(* ===== verification/Notify.thy ===== *)
theory Notify
  imports Fluent_Prelude
begin

text \<open>
  The notification pattern the program uses twice (messages for a publisher, handlers for a
  connection): a producer changes shared data and then makes a non-blocking send on a channel
  with room for one token; a consumer reads the data and, when it finds nothing new, parks on
  the channel. The locale states what a transition system of that shape must satisfy, for any
  number of producers, and proves once that no wake-up is lost.
\<close>

locale wakeup = invariant_system +
  fixes parked :: "'s \<Rightarrow> bool"
    and pending :: "'s \<Rightarrow> bool"
    and token :: "'s \<Rightarrow> bool"
    and announcing :: "'s \<Rightarrow> bool"
  assumes start_awake: "start s \<Longrightarrow> \<not> parked s"
    and parks_on_nothing: "step s t \<Longrightarrow> inv s \<Longrightarrow> \<not> parked s \<Longrightarrow> parked t \<Longrightarrow> \<not> pending t"
    and news_is_announced:
      "step s t \<Longrightarrow> inv s \<Longrightarrow> parked s \<Longrightarrow> parked t \<Longrightarrow> \<not> pending s \<Longrightarrow> pending t \<Longrightarrow> announcing t"
    and announcement_leaves_token:
      "step s t \<Longrightarrow> inv s \<Longrightarrow> parked s \<Longrightarrow> parked t \<Longrightarrow> announcing s \<Longrightarrow> \<not> announcing t \<Longrightarrow> token t"
    and token_stays: "step s t \<Longrightarrow> inv s \<Longrightarrow> parked s \<Longrightarrow> parked t \<Longrightarrow> token s \<Longrightarrow> token t"
begin

definition armed :: "'s \<Rightarrow> bool" where
  "armed s \<longleftrightarrow> (parked s \<longrightarrow> pending s \<longrightarrow> token s \<or> announcing s)"

lemma armed_step: "step s t \<Longrightarrow> inv s \<Longrightarrow> armed s \<Longrightarrow> armed t"
  unfolding armed_def
  using parks_on_nothing news_is_announced announcement_leaves_token token_stays by metis

end

text \<open>Being armed is part of a stronger invariant.\<close>

sublocale wakeup \<subseteq> armed_runs: invariant_system start step "\<lambda>s. inv s \<and> armed s"
proof (unfold_locales, goal_cases)
  case (1 s)
  then show ?case by (simp add: start_inv armed_def start_awake)
next
  case (2 s t)
  then show ?case by (blast intro: step_inv armed_step)
qed

context wakeup
begin

lemma no_lost_wakeup:
  "rtranclp step s0 s \<Longrightarrow> start s0 \<Longrightarrow> parked s \<Longrightarrow> pending s \<Longrightarrow> \<not> announcing s \<Longrightarrow> token s"
  using armed_runs.reachable_inv unfolding armed_def by blast

end

end
