(* ===== verification/Queue_Threads.thy ===== *)
theory Queue_Threads
  imports Message_Queue Notify
begin

text \<open>
  \<open>internal/message_queue.go\<close> under concurrency. First one consumer (the publisher's loop) and
  any number of producers, in the atomic actions between which another goroutine can run; then
  the double-checked initialisation of \<open>initOnce\<close>, one action per shared access.
\<close>

section \<open>One consumer, any number of producers\<close>

text \<open>
  Where the consumer is in \<open>Peek\<close>: before reading the front, in the \<open>select\<close>, returned with
  a message, or returned with the context's error. Where a producer is in \<open>Put\<close>: outside, or
  between the unlock and the send on the notification channel.
\<close>

datatype 'm consumer = AtFront | InSelect | Got 'm | Failed go_error
datatype producer = Outside | Pushed

record 'm queue_sys =
  sys_queue :: "'m message_queue"
  sys_consumer :: "'m consumer"
  sys_producer :: "nat \<Rightarrow> producer"
  sys_ctx :: "go_error option"

definition queue_start :: "'m queue_sys \<Rightarrow> bool" where
  "queue_start s \<longleftrightarrow> sys_queue s = init_once new_queue \<and> sys_consumer s = AtFront \<and>
     (\<forall>i. sys_producer s i = Outside)"

inductive queue_step :: "'m queue_sys \<Rightarrow> 'm queue_sys \<Rightarrow> bool" where
  put_push: "sys_producer s i = Outside \<Longrightarrow>
    queue_step s (s\<lparr>sys_queue := push_back m (sys_queue s), sys_producer := (sys_producer s)(i := Pushed)\<rparr>)"
| put_ring: "sys_producer s i = Pushed \<Longrightarrow>
    queue_step s (s\<lparr>sys_queue := ring (sys_queue s), sys_producer := (sys_producer s)(i := Outside)\<rparr>)"
| peek_front: "sys_consumer s = AtFront \<Longrightarrow> queue_items (sys_queue s) = m # ms \<Longrightarrow>
    queue_step s (s\<lparr>sys_consumer := Got m\<rparr>)"
| peek_empty: "sys_consumer s = AtFront \<Longrightarrow> queue_items (sys_queue s) = [] \<Longrightarrow>
    queue_step s (s\<lparr>sys_consumer := InSelect\<rparr>)"
| peek_notified: "sys_consumer s = InSelect \<Longrightarrow> has_token (sys_queue s) \<Longrightarrow>
    queue_step s (s\<lparr>sys_queue := take_token (sys_queue s), sys_consumer := AtFront\<rparr>)"
| peek_cancelled: "sys_consumer s = InSelect \<Longrightarrow> sys_ctx s = Some e \<Longrightarrow>
    queue_step s (s\<lparr>sys_consumer := Failed e\<rparr>)"
| commit_front: "sys_consumer s = Got m \<Longrightarrow>
    queue_step s (s\<lparr>sys_queue := queue_commit (sys_queue s), sys_consumer := AtFront\<rparr>)"
| peek_again: "sys_consumer s = Got m \<Longrightarrow> queue_step s (s\<lparr>sys_consumer := AtFront\<rparr>)"
| next_context: "sys_consumer s = Failed e \<Longrightarrow>
    queue_step s (s\<lparr>sys_consumer := AtFront, sys_ctx := None\<rparr>)"
| cancel: "sys_ctx s = None \<Longrightarrow> queue_step s (s\<lparr>sys_ctx := Some e\<rparr>)"

definition queue_parked :: "'m queue_sys \<Rightarrow> bool" where
  "queue_parked s \<longleftrightarrow> sys_consumer s = InSelect"

definition queue_pending :: "'m queue_sys \<Rightarrow> bool" where
  "queue_pending s \<longleftrightarrow> queue_items (sys_queue s) \<noteq> []"

definition queue_announcing :: "'m queue_sys \<Rightarrow> bool" where
  "queue_announcing s \<longleftrightarrow> (\<exists>i. sys_producer s i = Pushed)"

text \<open>
  The consumer's own invariant: a message it holds is still the front of the queue, as only it
  commits and producers add at the back.
\<close>

definition queue_sys_inv :: "'m queue_sys \<Rightarrow> bool" where
  "queue_sys_inv s \<longleftrightarrow> queue_wf (sys_queue s) \<and> mq_notify (sys_queue s) \<noteq> None \<and>
     (\<forall>m. sys_consumer s = Got m \<longrightarrow> (\<exists>ms. queue_items (sys_queue s) = m # ms))"

lemma queue_commit_created: "queue_wf q \<Longrightarrow> mq_notify (queue_commit q) \<noteq> None"
  using init_once_created [of q] by (cases "queue_items (init_once q)") (simp_all add: queue_commit_def Let_def)

lemma queue_step_inv: "queue_step s t \<Longrightarrow> queue_sys_inv s \<Longrightarrow> queue_sys_inv t"
  by (induction rule: queue_step.induct)
    (auto simp: queue_sys_inv_def push_back_created queue_commit_created)

lemma queue_start_inv: "queue_start s \<Longrightarrow> queue_sys_inv s"
  using init_once_created [OF queue_wf_new] by (auto simp: queue_start_def queue_sys_inv_def)

lemma ring_has_token: "queue_sys_inv s \<Longrightarrow> has_token (ring (sys_queue s))"
  by (simp add: queue_sys_inv_def ring_token)

interpretation queue_wakeup: wakeup queue_start queue_step queue_sys_inv queue_parked queue_pending
    "\<lambda>s. has_token (sys_queue s)" queue_announcing
proof (unfold_locales, goal_cases)
  case (1 s)
  then show ?case by (rule queue_start_inv)
next
  case (2 s t)
  then show ?case by (rule queue_step_inv)
next
  case (3 s)
  then show ?case by (simp add: queue_start_def queue_parked_def)
next
  case (4 s t)
  then show ?case by (auto simp: queue_parked_def queue_pending_def elim!: queue_step.cases)
next
  case (5 s t)
  then show ?case
    by (auto simp: queue_parked_def queue_pending_def queue_announcing_def elim!: queue_step.cases)
next
  case (6 s t)
  then show ?case
    by (auto simp: queue_parked_def queue_announcing_def ring_has_token elim!: queue_step.cases split: if_splits)
next
  case (7 s t)
  then show ?case
    by (auto simp: queue_parked_def ring_has_token elim!: queue_step.cases)
qed

subsection \<open>No message waits while the consumer sleeps\<close>

text \<open>
  C8: In every interleaving of producers and the consumer, if the consumer is parked in the
  \<open>select\<close> of \<open>Peek\<close> while the queue holds a message and no \<open>Put\<close> is half done, the
  notification is there: the consumer can wake up and return the front message.
\<close>

theorem put_wakes_consumer:
  assumes "rtranclp queue_step s0 s" and "queue_start s0"
    and "sys_consumer s = InSelect" and "queue_items (sys_queue s) = m # ms"
    and "\<forall>i. sys_producer s i = Outside"
  shows "\<exists>t u. queue_step s t \<and> queue_step t u \<and> sys_consumer u = Got m \<and>
           queue_items (sys_queue u) = m # ms"
proof -
  let ?t = "s\<lparr>sys_queue := take_token (sys_queue s), sys_consumer := AtFront\<rparr>"
  let ?u = "?t\<lparr>sys_consumer := Got m\<rparr>"
  have "has_token (sys_queue s)"
    using queue_wakeup.no_lost_wakeup [OF assms(1,2)] assms(3-5)
    by (simp add: queue_parked_def queue_pending_def queue_announcing_def)
  with assms(3) have "queue_step s ?t" by (rule queue_step.peek_notified)
  moreover have "queue_step ?t ?u"
    using assms(4) by (intro queue_step.peek_front) auto
  moreover have "sys_consumer ?u = Got m" "queue_items (sys_queue ?u) = m # ms"
    using assms(4) by auto
  ultimately show ?thesis by blast
qed

definition sleepy_start :: "nat queue_sys" where
  "sleepy_start = \<lparr>sys_queue = init_once new_queue, sys_consumer = AtFront,
     sys_producer = (\<lambda>_. Outside), sys_ctx = None\<rparr>"

definition sleepy_end :: "nat queue_sys" where
  "sleepy_end = \<lparr>sys_queue = queue_put 7 (init_once new_queue), sys_consumer = InSelect,
     sys_producer = (\<lambda>_. Outside), sys_ctx = None\<rparr>"

lemma sleepy_run: "rtranclp queue_step sleepy_start sleepy_end"
proof -
  let ?a = "sleepy_start\<lparr>sys_consumer := InSelect\<rparr>"
  let ?b = "?a\<lparr>sys_queue := push_back 7 (sys_queue ?a), sys_producer := (sys_producer ?a)(0 := Pushed)\<rparr>"
  let ?c = "?b\<lparr>sys_queue := ring (sys_queue ?b), sys_producer := (sys_producer ?b)(0 := Outside)\<rparr>"
  have "queue_step sleepy_start ?a"
    by (rule queue_step.peek_empty) (simp_all add: sleepy_start_def)
  moreover have "queue_step ?a ?b" by (rule queue_step.put_push) (simp add: sleepy_start_def)
  moreover have "queue_step ?b ?c" by (rule queue_step.put_ring) simp
  moreover have "?c = sleepy_end"
    by (auto simp: sleepy_start_def sleepy_end_def queue_put_def)
  ultimately show ?thesis using run_end [of queue_step sleepy_end] by (simp only: run_step)
qed

theorem put_wakes_consumer_witness:
  "\<exists>t u. queue_step sleepy_end t \<and> queue_step t u \<and> sys_consumer u = Got (7 :: nat) \<and>
     queue_items (sys_queue u) = [7]"
proof (rule put_wakes_consumer [OF sleepy_run])
  show "queue_start sleepy_start" by (simp add: queue_start_def sleepy_start_def)
  show "queue_items (sys_queue sleepy_end) = [7]" by (simp add: sleepy_end_def)
qed (simp_all add: sleepy_end_def)

section \<open>initOnce under concurrency\<close>

text \<open>
  Any number of threads enter \<open>initOnce\<close> and then use the list. One action per shared access:
  the unlocked test of \<open>q.notify\<close>, taking the lock, the second test, the two assignments, the
  unlock (deferred to the return) and, in the caller, taking the lock and dereferencing
  \<open>q.messages\<close>. \<open>io_made\<close> counts how often the channel was created.
\<close>

datatype init_pc = IEntry | IWantLock | ILocked | ISetNotify | ISetMessages | IUnlock | IReturned | IUsed

record init_sys =
  io_notify :: bool
  io_messages :: bool
  io_lock :: "nat option"
  io_pc :: "nat \<Rightarrow> init_pc"
  io_made :: nat

definition init_start :: "init_sys" where
  "init_start = \<lparr>io_notify = False, io_messages = False, io_lock = None, io_pc = (\<lambda>_. IEntry), io_made = 0\<rparr>"

inductive init_step :: "init_sys \<Rightarrow> init_sys \<Rightarrow> bool" where
  fast_path: "io_pc s i = IEntry \<Longrightarrow> io_notify s \<Longrightarrow> init_step s (s\<lparr>io_pc := (io_pc s)(i := IReturned)\<rparr>)"
| slow_path: "io_pc s i = IEntry \<Longrightarrow> \<not> io_notify s \<Longrightarrow> init_step s (s\<lparr>io_pc := (io_pc s)(i := IWantLock)\<rparr>)"
| take_lock: "io_pc s i = IWantLock \<Longrightarrow> io_lock s = None \<Longrightarrow>
    init_step s (s\<lparr>io_pc := (io_pc s)(i := ILocked), io_lock := Some i\<rparr>)"
| second_test_set: "io_pc s i = ILocked \<Longrightarrow> io_notify s \<Longrightarrow> init_step s (s\<lparr>io_pc := (io_pc s)(i := IUnlock)\<rparr>)"
| second_test_unset: "io_pc s i = ILocked \<Longrightarrow> \<not> io_notify s \<Longrightarrow>
    init_step s (s\<lparr>io_pc := (io_pc s)(i := ISetNotify)\<rparr>)"
| set_notify: "io_pc s i = ISetNotify \<Longrightarrow>
    init_step s (s\<lparr>io_pc := (io_pc s)(i := ISetMessages), io_notify := True, io_made := Suc (io_made s)\<rparr>)"
| set_messages: "io_pc s i = ISetMessages \<Longrightarrow>
    init_step s (s\<lparr>io_pc := (io_pc s)(i := IUnlock), io_messages := True\<rparr>)"
| unlock: "io_pc s i = IUnlock \<Longrightarrow>
    init_step s (s\<lparr>io_pc := (io_pc s)(i := IReturned), io_lock := None\<rparr>)"
| use_list: "io_pc s i = IReturned \<Longrightarrow> io_lock s = None \<Longrightarrow> init_step s (s\<lparr>io_pc := (io_pc s)(i := IUsed)\<rparr>)"

fun holds_lock :: "init_pc \<Rightarrow> bool" where
  "holds_lock ILocked = True"
| "holds_lock ISetNotify = True"
| "holds_lock ISetMessages = True"
| "holds_lock IUnlock = True"
| "holds_lock _ = False"

text \<open>
  Whether the channel and the list exist is determined by where the holder of the lock is; the
  list lags behind the channel only between the two assignments.
\<close>

fun created_flags :: "init_pc \<Rightarrow> bool \<Rightarrow> bool \<Rightarrow> bool" where
  "created_flags ISetNotify n m = (\<not> n \<and> \<not> m)"
| "created_flags ISetMessages n m = (n \<and> \<not> m)"
| "created_flags IUnlock n m = (n \<and> m)"
| "created_flags _ n m = (n = m)"

definition lock_phase :: "init_sys \<Rightarrow> init_pc" where
  "lock_phase s = (case io_lock s of None \<Rightarrow> IEntry | Some j \<Rightarrow> io_pc s j)"

definition init_inv :: "init_sys \<Rightarrow> bool" where
  "init_inv s \<longleftrightarrow>
     (\<forall>i. holds_lock (io_pc s i) \<longleftrightarrow> io_lock s = Some i) \<and>
     created_flags (lock_phase s) (io_notify s) (io_messages s) \<and>
     (\<forall>i. io_pc s i = IReturned \<longrightarrow> io_notify s) \<and>
     (\<forall>i. io_pc s i = IUsed \<longrightarrow> io_messages s) \<and>
     io_made s = (if io_notify s then 1 else 0)"

lemma init_inv_holder: "init_inv s \<Longrightarrow> io_pc s i = p \<Longrightarrow> holds_lock p \<Longrightarrow> io_lock s = Some i"
  by (auto simp: init_inv_def)

lemma init_inv_not_holder: "init_inv s \<Longrightarrow> io_pc s i = p \<Longrightarrow> \<not> holds_lock p \<Longrightarrow> io_lock s \<noteq> Some i"
  by (auto simp: init_inv_def)

lemma init_step_inv: "init_step s t \<Longrightarrow> init_inv s \<Longrightarrow> init_inv t"
proof (induction rule: init_step.induct)
  case (fast_path s i)
  then have "io_lock s \<noteq> Some i" by (auto dest: init_inv_not_holder)
  with fast_path show ?case by (auto simp: init_inv_def lock_phase_def split: option.splits)
next
  case (slow_path s i)
  then have "io_lock s \<noteq> Some i" by (auto dest: init_inv_not_holder)
  with slow_path show ?case by (auto simp: init_inv_def lock_phase_def split: option.splits)
next
  case (take_lock s i)
  then show ?case by (auto simp: init_inv_def lock_phase_def)
next
  case (second_test_set s i)
  then have "io_lock s = Some i" by (auto intro: init_inv_holder)
  with second_test_set show ?case by (auto simp: init_inv_def lock_phase_def)
next
  case (second_test_unset s i)
  then have "io_lock s = Some i" by (auto intro: init_inv_holder)
  with second_test_unset show ?case by (auto simp: init_inv_def lock_phase_def)
next
  case (set_notify s i)
  then have "io_lock s = Some i" by (auto intro: init_inv_holder)
  with set_notify show ?case by (auto simp: init_inv_def lock_phase_def)
next
  case (set_messages s i)
  then have "io_lock s = Some i" by (auto intro: init_inv_holder)
  with set_messages show ?case by (auto simp: init_inv_def lock_phase_def)
next
  case (unlock s i)
  then have "io_lock s = Some i" by (auto intro: init_inv_holder)
  with unlock show ?case by (auto simp: init_inv_def lock_phase_def)
next
  case (use_list s i)
  then show ?case by (auto simp: init_inv_def lock_phase_def)
qed

text \<open>
  C9: However the threads interleave, the notification channel is created at most once, and a
  thread that returned from \<open>initOnce\<close>, also by the unlocked test, never dereferences a nil list:
  once it gets the lock, the list exists.
\<close>

theorem init_once_safe:
  assumes "rtranclp init_step init_start s"
  shows "io_made s \<le> 1 \<and>
    (\<forall>i. io_pc s i = IReturned \<and> io_lock s = None \<longrightarrow> io_messages s) \<and>
    (\<forall>i. io_pc s i = IUsed \<longrightarrow> io_messages s)"
proof -
  have "init_inv s"
    using assms
  proof (rule rtranclp_invariant)
    show "init_inv init_start" by (simp add: init_inv_def lock_phase_def init_start_def)
  qed (rule init_step_inv)
  then show ?thesis by (auto simp: init_inv_def lock_phase_def)
qed

definition init_race :: init_sys where
  "init_race = init_start\<lparr>io_pc := (\<lambda>_. IEntry)(0 := IReturned, 1 := IReturned),
     io_notify := True, io_messages := True, io_made := 1\<rparr>"

lemma init_race_run: "rtranclp init_step init_start init_race"
proof -
  let ?a = "init_start\<lparr>io_pc := (io_pc init_start)(0 := IWantLock)\<rparr>"
  let ?b = "?a\<lparr>io_pc := (io_pc ?a)(0 := ILocked), io_lock := Some 0\<rparr>"
  let ?c = "?b\<lparr>io_pc := (io_pc ?b)(0 := ISetNotify)\<rparr>"
  let ?d = "?c\<lparr>io_pc := (io_pc ?c)(0 := ISetMessages), io_notify := True, io_made := Suc (io_made ?c)\<rparr>"
  let ?e = "?d\<lparr>io_pc := (io_pc ?d)(1 := IReturned)\<rparr>"
  let ?f = "?e\<lparr>io_pc := (io_pc ?e)(0 := IUnlock), io_messages := True\<rparr>"
  let ?g = "?f\<lparr>io_pc := (io_pc ?f)(0 := IReturned), io_lock := None\<rparr>"
  have "init_step init_start ?a" by (rule init_step.slow_path) (simp_all add: init_start_def)
  moreover have "init_step ?a ?b" by (rule init_step.take_lock) (simp_all add: init_start_def)
  moreover have "init_step ?b ?c" by (rule init_step.second_test_unset) (simp_all add: init_start_def)
  moreover have "init_step ?c ?d" by (rule init_step.set_notify) simp
  moreover have "init_step ?d ?e" by (rule init_step.fast_path) (simp_all add: init_start_def)
  moreover have "init_step ?e ?f" by (rule init_step.set_messages) simp
  moreover have "init_step ?f ?g" by (rule init_step.unlock) simp
  moreover have "?g = init_race" by (auto simp: init_race_def init_start_def)
  ultimately show ?thesis using run_end [of init_step init_race] by (simp only: run_step)
qed

theorem init_once_safe_witness: "io_made init_race \<le> 1 \<and> io_messages init_race"
  using init_once_safe [OF init_race_run] by (auto simp: init_race_def init_start_def)

end
