(* ===== verification/Amqp_Model.thy ===== *)
theory Amqp_Model
  imports Fluent_Prelude
begin

text \<open>
  The data that \<open>github.com/streadway/amqp\<close> hands to the library and takes from it, as far as
  the library reads or writes it, and the operations of an AMQP channel the library calls. The
  channel itself is not under src/: its answers are an argument of the model, a function from
  what happened so far and the call to an error or the name a declaration returns. Every call
  is recorded with its answer, in order, in a history; so is every call of a user's function.
\<close>

section \<open>Dynamically typed header values\<close>

text \<open>
  The Go types a header value can have (\<open>interface{}\<close>); integers at their width, \<open>int\<close> and
  \<open>uint\<close> being 64 bits wide, floats as their IEEE bit patterns.
\<close>

datatype amqp_value =
    VNil
  | VBool bool
  | VInt "64 word" | VInt8 "8 word" | VInt16 "16 word" | VInt32 "32 word" | VInt64 "64 word"
  | VUint "64 word" | VUint8 "8 word" | VUint16 "16 word" | VUint32 "32 word" | VUint64 "64 word"
  | VFloat32 "32 word" | VFloat64 "64 word"
  | VString string
  | VBytes bytes
  | VArray "amqp_value list"
  | VTable "(string \<times> amqp_value) list"

type_synonym table = "amqp_value gomap"

section \<open>Time stamps\<close>

text \<open>A \<open>time.Time\<close>: the zero value, or an instant in nanoseconds with its location.\<close>

datatype stamp = ZeroTime | LocalTime int | UtcTime int

fun to_utc :: "stamp \<Rightarrow> stamp" where
  "to_utc (LocalTime t) = UtcTime t"
| "to_utc t = t"

section \<open>Deliveries and publishings\<close>

text \<open>
  The type of the header map is a parameter: \<open>table option\<close> where a message owns its map
  (\<open>None\<close> is the nil map) and a reference where the code shares the map between messages.
\<close>

record 'h delivery =
  d_Headers :: 'h
  d_ContentType :: string
  d_ContentEncoding :: string
  d_DeliveryMode :: "8 word"
  d_CorrelationId :: string
  d_ReplyTo :: string
  d_Expiration :: string
  d_MessageId :: string
  d_Timestamp :: stamp
  d_Type :: string
  d_DeliveryTag :: nat
  d_RoutingKey :: string
  d_Body :: bytes

record 'h publishing =
  p_Headers :: 'h
  p_ContentType :: string
  p_ContentEncoding :: string
  p_DeliveryMode :: "8 word"
  p_CorrelationId :: string
  p_ReplyTo :: string
  p_Expiration :: string
  p_MessageId :: string
  p_Timestamp :: stamp
  p_Type :: string
  p_Body :: bytes

type_synonym msg_in = "table option delivery"
type_synonym msg_out = "table option publishing"

text \<open>The zero value of \<open>amqp.Publishing\<close>, and the constant \<open>amqp.Persistent\<close>.\<close>

definition zero_publishing :: "'h \<Rightarrow> 'h publishing" where
  "zero_publishing h = \<lparr>p_Headers = h, p_ContentType = '''', p_ContentEncoding = '''',
     p_DeliveryMode = 0, p_CorrelationId = '''', p_ReplyTo = '''', p_Expiration = '''',
     p_MessageId = '''', p_Timestamp = ZeroTime, p_Type = '''', p_Body = []\<rparr>"

definition persistent :: "8 word" where
  "persistent = 2"

section \<open>Calls of an AMQP channel and the history of a component\<close>

text \<open>
  The arguments are those of the Go methods, in their order: durable, auto-delete (or delete
  when unused), internal (or exclusive), no-wait, and the argument table.
\<close>

datatype amqp_call =
    ExchangeDeclare string string bool bool bool bool "table option"
  | QueueDeclare string bool bool bool bool "table option"
  | QueueBind string string string bool "table option"
  | Consume string string bool bool bool bool "table option"
  | Qos nat nat bool
  | CloseChannel
  | Publish string string bool bool msg_out
  | Ack nat bool
  | Nack nat bool bool

datatype event =
    Did amqp_call "go_error + string"
  | RanReady nat "go_error option"
  | AskedTooMuch msg_in "64 word" bool
  | AskedExpired msg_in "64 word" bool
  | Filtered nat bool
  | RanHandler msg_in "go_error option"
  | Overflowed nat
  | Printed bytes
  | Crashed string

type_synonym history = "event list"
type_synonym broker = "history \<Rightarrow> amqp_call \<Rightarrow> go_error + string"

section \<open>Sequences of calls that stop at the first error\<close>

type_synonym 'a amqp = "history \<Rightarrow> (go_error + 'a) \<times> history"

definition pure_amqp :: "'a \<Rightarrow> 'a amqp" where
  "pure_amqp x h = (Inr x, h)"

definition fail_amqp :: "go_error \<Rightarrow> 'a amqp" where
  "fail_amqp e h = (Inl e, h)"

definition do_call :: "broker \<Rightarrow> amqp_call \<Rightarrow> string amqp" where
  "do_call b c h = (let r = b h c in (r, h @ [Did c r]))"

definition record_event :: "event \<Rightarrow> unit amqp" where
  "record_event e h = (Inr (), h @ [e])"

definition and_then :: "'a amqp \<Rightarrow> ('a \<Rightarrow> 'b amqp) \<Rightarrow> 'b amqp" where
  "and_then m f h = (case m h of (Inl e, h') \<Rightarrow> (Inl e, h') | (Inr x, h') \<Rightarrow> f x h')"

definition guarded :: "bool \<Rightarrow> unit amqp \<Rightarrow> unit amqp" where
  "guarded c m = (if c then m else pure_amqp ())"

definition call_unit :: "broker \<Rightarrow> amqp_call \<Rightarrow> unit amqp" where
  "call_unit b c = and_then (do_call b c) (\<lambda>_. pure_amqp ())"

fun for_each :: "('a \<Rightarrow> unit amqp) \<Rightarrow> 'a list \<Rightarrow> unit amqp" where
  "for_each f [] = pure_amqp ()"
| "for_each f (x # xs) = and_then (f x) (\<lambda>_. for_each f xs)"

lemmas amqp_defs = pure_amqp_def fail_amqp_def do_call_def record_event_def and_then_def guarded_def call_unit_def

lemma and_then_pure [simp]: "and_then (pure_amqp x) f = f x"
  by (rule ext) (simp add: amqp_defs)

lemma and_then_assoc: "and_then (and_then m f) g = and_then m (\<lambda>x. and_then (f x) g)"
  by (rule ext) (simp add: and_then_def split: prod.splits sum.splits)

subsection \<open>The history only grows\<close>

definition extends :: "'a amqp \<Rightarrow> bool" where
  "extends m \<longleftrightarrow> (\<forall>h. \<exists>es. snd (m h) = h @ es)"

named_theorems extends_intros "programs that only add to the history"

lemma extendsD: "extends m \<Longrightarrow> m h = (r, h') \<Longrightarrow> \<exists>es. h' = h @ es"
  by (metis extends_def snd_conv)

lemma extends_pure [extends_intros]: "extends (pure_amqp x)"
  by (simp add: extends_def pure_amqp_def)

lemma extends_fail [extends_intros]: "extends (fail_amqp e)"
  by (simp add: extends_def fail_amqp_def)

lemma extends_do_call [extends_intros]: "extends (do_call b c)"
  by (simp add: extends_def do_call_def Let_def)

lemma extends_record [extends_intros]: "extends (record_event e)"
  by (simp add: extends_def record_event_def)

lemma extends_and_then [extends_intros]:
  assumes m: "extends m" and f: "\<And>x. extends (f x)"
  shows "extends (and_then m f)"
proof -
  have "\<exists>es. snd (and_then m f h) = h @ es" for h
  proof (cases "m h")
    case (Pair r h')
    with m obtain es where h': "h' = h @ es" by (blast dest: extendsD)
    show ?thesis
    proof (cases r)
      case (Inl e)
      with Pair h' show ?thesis by (simp add: and_then_def)
    next
      case (Inr x)
      from f [of x] obtain es' where "snd (f x h') = h' @ es'" by (auto simp: extends_def)
      with Pair Inr h' show ?thesis by (simp add: and_then_def)
    qed
  qed
  then show ?thesis by (simp add: extends_def)
qed

lemma extends_guarded [extends_intros]: "extends m \<Longrightarrow> extends (guarded c m)"
  by (simp add: guarded_def extends_pure)

lemma extends_call_unit [extends_intros]: "extends (call_unit b c)"
  unfolding call_unit_def by (intro extends_intros)

lemma extends_for_each [extends_intros]: "(\<And>x. extends (f x)) \<Longrightarrow> extends (for_each f xs)"
  by (induction xs) (auto intro: extends_intros)

subsection \<open>Plans\<close>

text \<open>
  The reference for a set-up phase: a list of calls carried out in order until one fails.
\<close>

fun run_plan :: "broker \<Rightarrow> amqp_call list \<Rightarrow> unit amqp" where
  "run_plan b [] h = (Inr (), h)"
| "run_plan b (c # cs) h =
     (case b h c of
        Inl e \<Rightarrow> (Inl e, h @ [Did c (Inl e)])
      | Inr n \<Rightarrow> run_plan b cs (h @ [Did c (Inr n)]))"

lemma run_plan_append: "run_plan b (cs @ ds) = and_then (run_plan b cs) (\<lambda>_. run_plan b ds)"
proof -
  have "run_plan b (cs @ ds) h = and_then (run_plan b cs) (\<lambda>_. run_plan b ds) h" for h
    by (induction cs arbitrary: h) (auto simp: and_then_def split: sum.split)
  then show ?thesis by blast
qed

lemma run_plan_single: "run_plan b [c] = call_unit b c"
  by (rule ext) (simp add: amqp_defs Let_def split: sum.split)

lemma run_plan_Cons: "run_plan b (c # cs) = and_then (call_unit b c) (\<lambda>_. run_plan b cs)"
  using run_plan_append [of b "[c]" cs] by (simp only: run_plan_single append_Cons append_Nil)

lemma for_each_run_plan: "for_each (\<lambda>x. run_plan b (f x)) xs = run_plan b (concat (map f xs))"
proof (induction xs)
  case Nil
  show ?case by (rule ext) (simp add: pure_amqp_def)
next
  case (Cons x xs)
  then show ?case by (simp add: run_plan_append)
qed

lemma for_each_call_unit: "for_each (\<lambda>x. call_unit b (f x)) xs = run_plan b (map f xs)"
  using for_each_run_plan [of b "\<lambda>x. [f x]" xs] by (simp add: run_plan_single)

subsection \<open>Acknowledgements\<close>

text \<open>How often a delivery was acknowledged, positively or negatively, and the calls of a history.\<close>

definition disposes :: "nat \<Rightarrow> event \<Rightarrow> bool" where
  "disposes tag e = (case e of
     Did c _ \<Rightarrow> (case c of Ack t _ \<Rightarrow> t = tag | Nack t _ _ \<Rightarrow> t = tag | _ \<Rightarrow> False) | _ \<Rightarrow> False)"

definition dispositions :: "nat \<Rightarrow> history \<Rightarrow> nat" where
  "dispositions tag h = length (filter (disposes tag) h)"

lemma dispositions_append [simp]: "dispositions tag (h @ h') = dispositions tag h + dispositions tag h'"
  by (simp add: dispositions_def)

lemma dispositions_Nil [simp]: "dispositions tag [] = 0"
  by (simp add: dispositions_def)

lemma dispositions_Cons [simp]:
  "dispositions tag (e # h) = (if disposes tag e then 1 else 0) + dispositions tag h"
  by (simp add: dispositions_def)

lemma disposes_simps [simp]:
  "disposes tag (Did (Ack t m) r) = (t = tag)" "disposes tag (Did (Nack t m q) r) = (t = tag)"
  "\<not> disposes tag (Did (Publish ex k x y p) r)" "\<not> disposes tag (RanHandler d err)"
  "\<not> disposes tag (AskedTooMuch d n a)" "\<not> disposes tag (AskedExpired d n a)"
  "\<not> disposes tag (Filtered i a)" "\<not> disposes tag (RanReady i err)"
  "\<not> disposes tag (Printed out)" "\<not> disposes tag (Crashed msg)"
  by (simp_all add: disposes_def)

definition calls_of :: "history \<Rightarrow> amqp_call list" where
  "calls_of h = concat (map (\<lambda>e. case e of Did c _ \<Rightarrow> [c] | _ \<Rightarrow> []) h)"

lemma calls_of_append [simp]: "calls_of (h @ h') = calls_of h @ calls_of h'"
  by (simp add: calls_of_def)

lemma calls_of_simps [simp]: "calls_of [] = []" "calls_of (Did c r # h) = c # calls_of h"
  by (simp_all add: calls_of_def)

definition succeeded :: "history \<Rightarrow> bool" where
  "succeeded h \<longleftrightarrow> list_all (\<lambda>e. case e of Did _ (Inr _) \<Rightarrow> True | _ \<Rightarrow> False) h"

lemma succeeded_simps [simp]:
  "succeeded []" "succeeded (h @ h') \<longleftrightarrow> succeeded h \<and> succeeded h'" "succeeded [Did c (Inr n)]"
  by (simp_all add: succeeded_def)

text \<open>
  A program carries out a plan: its calls are the plan when it succeeds, and otherwise the plan
  up to a failing call whose error it returns.
\<close>

definition carries_out :: "(go_error + 'a) \<times> history \<Rightarrow> history \<Rightarrow> amqp_call list \<Rightarrow> bool" where
  "carries_out = (\<lambda>(r, h') h plan. \<exists>evs. h' = h @ evs \<and>
     (case r of
        Inr _ \<Rightarrow> calls_of evs = plan \<and> succeeded evs
      | Inl e \<Rightarrow> \<exists>n c. n < length plan \<and> c = plan ! n \<and> calls_of evs = take (Suc n) plan \<and>
          last evs = Did c (Inl e) \<and> evs \<noteq> [] \<and> succeeded (butlast evs)))"

lemma run_plan_carries_out: "carries_out (run_plan b cs h) h cs"
proof (induction cs arbitrary: h)
  case Nil
  show ?case by (simp add: carries_out_def)
next
  case (Cons c cs)
  show ?case
  proof (cases "b h c")
    case (Inl e)
    then show ?thesis by (auto simp: carries_out_def)
  next
    case (Inr n)
    obtain r h' where rh: "run_plan b cs (h @ [Did c (Inr n)]) = (r, h')" by (meson surj_pair)
    with Cons.IH [of "h @ [Did c (Inr n)]"] obtain evs where evs: "h' = h @ Did c (Inr n) # evs"
      "case r of Inr _ \<Rightarrow> calls_of evs = cs \<and> succeeded evs
       | Inl e \<Rightarrow> \<exists>n c. n < length cs \<and> c = cs ! n \<and> calls_of evs = take (Suc n) cs \<and>
          last evs = Did c (Inl e) \<and> evs \<noteq> [] \<and> succeeded (butlast evs)"
      by (auto simp: carries_out_def)
    show ?thesis
    proof (cases r)
      case (Inl e)
      with evs obtain n' where "n' < length cs" "calls_of evs = take (Suc n') cs"
        "last evs = Did (cs ! n') (Inl e)" "evs \<noteq> []" "succeeded (butlast evs)" by auto
      with Inl Inr rh evs(1) show ?thesis
        by (auto simp: carries_out_def succeeded_def intro!: exI [of _ "Suc n'"])
    next
      case (Inr x)
      with \<open>b h c = Inr n\<close> rh evs show ?thesis by (auto simp: carries_out_def succeeded_def)
    qed
  qed
qed

end
