(* ===== verification/Writer.thy ===== *)
theory Writer
  imports Amqp_Model Message_Queue
begin

text \<open>
  \<open>writer.go\<close>: the configuration of a writer, the message builder, publishing and the loop of
  \<open>publisher.ChannelReady\<close>. The header map of an outgoing message is shared by every copy of
  the \<open>amqp.Publishing\<close> struct, so it lives in a heap and a message holds its address.
\<close>

section \<open>Shared header maps\<close>

record heap =
  hp_table :: "nat \<Rightarrow> table"
  hp_next :: nat

type_synonym shared_pub = "nat option publishing"

text \<open>
  \<open>if Headers == nil { Headers = make(amqp.Table) }; Headers[name] = data\<close>, the idiom of
  \<open>Message.Header\<close> and of the signer.
\<close>

definition header_put :: "string \<Rightarrow> amqp_value \<Rightarrow> shared_pub \<times> heap \<Rightarrow> shared_pub \<times> heap" where
  "header_put k v = (\<lambda>(p, hp).
     (case p_Headers p of
        None \<Rightarrow> (p\<lparr>p_Headers := Some (hp_next hp)\<rparr>,
                 hp\<lparr>hp_table := (hp_table hp)(hp_next hp := map_put None k v), hp_next := Suc (hp_next hp)\<rparr>)
      | Some a \<Rightarrow> (p, hp\<lparr>hp_table := (hp_table hp)(a := map_put (Some (hp_table hp a)) k v)\<rparr>)))"

text \<open>What goes on the wire: the message with the contents its header map has at that moment.\<close>

definition wire :: "heap \<Rightarrow> shared_pub \<Rightarrow> msg_out" where
  "wire hp p = \<lparr>p_Headers = map_option (hp_table hp) (p_Headers p), p_ContentType = p_ContentType p,
     p_ContentEncoding = p_ContentEncoding p, p_DeliveryMode = p_DeliveryMode p,
     p_CorrelationId = p_CorrelationId p, p_ReplyTo = p_ReplyTo p, p_Expiration = p_Expiration p,
     p_MessageId = p_MessageId p, p_Timestamp = p_Timestamp p, p_Type = p_Type p, p_Body = p_Body p\<rparr>"

lemma wire_fields [simp]:
  "p_Headers (wire hp p) = map_option (hp_table hp) (p_Headers p)"
  "p_ContentType (wire hp p) = p_ContentType p" "p_DeliveryMode (wire hp p) = p_DeliveryMode p"
  "p_CorrelationId (wire hp p) = p_CorrelationId p" "p_ReplyTo (wire hp p) = p_ReplyTo p"
  "p_Expiration (wire hp p) = p_Expiration p" "p_MessageId (wire hp p) = p_MessageId p"
  "p_Timestamp (wire hp p) = p_Timestamp p" "p_Type (wire hp p) = p_Type p"
  "p_Body (wire hp p) = p_Body p" "p_ContentEncoding (wire hp p) = p_ContentEncoding p"
  by (simp_all add: wire_def)

lemma header_put_wire:
  "header_put k v (p, hp) = (p', hp') \<Longrightarrow>
   map_get (p_Headers (wire hp' p')) k' = (if k' = k then Some v else map_get (p_Headers (wire hp p)) k')"
  by (auto simp: header_put_def split: option.splits)

lemma header_put_keeps:
  "header_put k v (p, hp) = (p', hp') \<Longrightarrow> p_Body p' = p_Body p \<and> p_MessageId p' = p_MessageId p"
  by (auto simp: header_put_def split: option.splits)

section \<open>Configuration of a writer\<close>

text \<open>
  A middleware (\<open>SenderHandler\<close>) gets a pointer to the message and says whether to go on, or
  panics.
  \<open>overflow.Handler\<close> is a user function; only whether it is set matters here, its calls are
  recorded as \<open>Overflowed\<close>.
\<close>

type_synonym sender_handler = "shared_pub \<Rightarrow> heap \<Rightarrow> (bool \<times> shared_pub \<times> heap) outcome"

record writer_config =
  wc_exchange :: string
  wc_kind :: string
  wc_middleware :: "sender_handler list"
  wc_topic :: string
  wc_MaxSize :: int
  wc_Handler :: bool

definition newWriter :: writer_config where
  "newWriter = \<lparr>wc_exchange = '''', wc_kind = ''direct'', wc_middleware = [], wc_topic = '''',
     wc_MaxSize = 0, wc_Handler = False\<rparr>"

definition withExchange :: "string \<Rightarrow> string \<Rightarrow> writer_config \<Rightarrow> writer_config" where
  "withExchange name kind wc = wc\<lparr>wc_exchange := name, wc_kind := kind\<rparr>"

definition writer_Use :: "sender_handler \<Rightarrow> writer_config \<Rightarrow> writer_config" where
  "writer_Use f wc = wc\<lparr>wc_middleware := wc_middleware wc @ [f]\<rparr>"

definition DefaultTopic :: "string \<Rightarrow> writer_config \<Rightarrow> writer_config" where
  "DefaultTopic name = withExchange name ''topic''"

definition DefaultDirect :: "string \<Rightarrow> writer_config \<Rightarrow> writer_config" where
  "DefaultDirect name = withExchange name ''direct''"

definition DefaultFanout :: "string \<Rightarrow> writer_config \<Rightarrow> writer_config" where
  "DefaultFanout name = withExchange name ''fanout''"

definition DefaultKey :: "string \<Rightarrow> writer_config \<Rightarrow> writer_config" where
  "DefaultKey key wc = wc\<lparr>wc_topic := key\<rparr>"

definition Overflow :: "int \<Rightarrow> bool \<Rightarrow> writer_config \<Rightarrow> writer_config" where
  "Overflow max_size handler wc = wc\<lparr>wc_Handler := handler, wc_MaxSize := max_size\<rparr>"

section \<open>The message builder\<close>

record message =
  msg_msg :: shared_pub
  msg_exchange :: string
  msg_key :: string

text \<open>\<open>now\<close> is what \<open>time.Now()\<close> returns.\<close>

definition Prepare :: "writer_config \<Rightarrow> stamp \<Rightarrow> message" where
  "Prepare wc now = \<lparr>msg_msg = (zero_publishing None)\<lparr>p_Timestamp := to_utc now, p_DeliveryMode := persistent\<rparr>,
     msg_exchange = wc_exchange wc, msg_key = wc_topic wc\<rparr>"

definition writer_Reply :: "writer_config \<Rightarrow> stamp \<Rightarrow> msg_in \<Rightarrow> message" where
  "writer_Reply wc now d = (let ms = Prepare wc now in
     ms\<lparr>msg_exchange := '''', msg_key := d_ReplyTo d,
        msg_msg := (msg_msg ms)\<lparr>p_CorrelationId := d_CorrelationId d\<rparr>\<rparr>)"

definition Message_Time :: "stamp \<Rightarrow> message \<Rightarrow> message" where
  "Message_Time t m = m\<lparr>msg_msg := (msg_msg m)\<lparr>p_Timestamp := t\<rparr>\<rparr>"

definition Message_ID :: "string \<Rightarrow> message \<Rightarrow> message" where
  "Message_ID i m = m\<lparr>msg_msg := (msg_msg m)\<lparr>p_MessageId := i\<rparr>\<rparr>"

definition Message_Exchange :: "string \<Rightarrow> message \<Rightarrow> message" where
  "Message_Exchange name m = m\<lparr>msg_exchange := name\<rparr>"

definition Message_Header :: "string \<Rightarrow> amqp_value \<Rightarrow> message \<times> heap \<Rightarrow> message \<times> heap" where
  "Message_Header k v = (\<lambda>(m, hp). case header_put k v (msg_msg m, hp) of (p, hp') \<Rightarrow> (m\<lparr>msg_msg := p\<rparr>, hp'))"

definition Message_Type :: "string \<Rightarrow> message \<Rightarrow> message" where
  "Message_Type t m = m\<lparr>msg_msg := (msg_msg m)\<lparr>p_ContentType := t\<rparr>\<rparr>"

definition Message_Key :: "string \<Rightarrow> message \<Rightarrow> message" where
  "Message_Key name m = m\<lparr>msg_key := name\<rparr>"

definition Message_ReplyTo :: "string \<Rightarrow> string \<Rightarrow> message \<Rightarrow> message" where
  "Message_ReplyTo corr q m = m\<lparr>msg_msg := (msg_msg m)\<lparr>p_CorrelationId := corr, p_ReplyTo := q\<rparr>\<rparr>"

definition Message_Reply :: "string \<Rightarrow> string \<Rightarrow> message \<Rightarrow> message" where
  "Message_Reply corr q m =
     m\<lparr>msg_msg := (msg_msg m)\<lparr>p_CorrelationId := corr\<rparr>, msg_exchange := '''', msg_key := q\<rparr>"

definition Message_String :: "string \<Rightarrow> message \<Rightarrow> message" where
  "Message_String content m = m\<lparr>msg_msg := (msg_msg m)\<lparr>p_Body := content\<rparr>\<rparr>"

definition Message_Bytes :: "bytes \<Rightarrow> message \<Rightarrow> message" where
  "Message_Bytes content m = m\<lparr>msg_msg := (msg_msg m)\<lparr>p_Body := content\<rparr>\<rparr>"

text \<open>\<open>marshal\<close> is \<open>json.MarshalIndent\<close> on the user's object; its error panics.\<close>

definition Message_JSON :: "('o \<Rightarrow> go_error + bytes) \<Rightarrow> 'o \<Rightarrow> message \<Rightarrow> message outcome" where
  "Message_JSON marshal obj m =
     (case marshal obj of
        Inl e \<Rightarrow> Panic (error_text e)
      | Inr v \<Rightarrow> Value (m\<lparr>msg_msg := (msg_msg m)\<lparr>p_Body := v, p_ContentType := ''application/json''\<rparr>\<rparr>))"

definition Message_ContentType :: "string \<Rightarrow> message \<Rightarrow> message" where
  "Message_ContentType mime m = m\<lparr>msg_msg := (msg_msg m)\<lparr>p_ContentType := mime\<rparr>\<rparr>"

definition Message_JSONContent :: "bytes \<Rightarrow> message \<Rightarrow> message" where
  "Message_JSONContent d m = Message_Bytes d (Message_ContentType ''application/json'' m)"

text \<open>
  A \<open>time.Duration\<close> is an \<open>int64\<close> number of nanoseconds; Go's division truncates towards zero.
\<close>

definition duration_ms :: "64 word \<Rightarrow> int" where
  "duration_ms tm = sint tm sdiv 1000000"

definition Message_TTL :: "64 word \<Rightarrow> message \<Rightarrow> message" where
  "Message_TTL tm m =
     (if tm \<noteq> 0 then m\<lparr>msg_msg := (msg_msg m)\<lparr>p_Expiration := format_int (duration_ms tm)\<rparr>\<rparr> else m)"

section \<open>Publishing\<close>

text \<open>
  A queued message (\<open>internal.Message\<close>). Its channels are addresses: exactly one of \<open>Try\<close> and
  \<open>Done\<close> is set by the two ways to publish.
\<close>

record qmsg =
  m_Exchange :: string
  m_Key :: string
  m_Msg :: shared_pub
  m_Try :: "nat option"
  m_Done :: "nat option"

text \<open>
  The state a writer, its publisher and their clients share. \<open>ww_log\<close> is not in the code: it
  records, in order, what was put, what was rejected by a middleware, each attempt to publish
  with its error, and what clients received from their \<open>Try\<close> channels (\<open>None\<close>: the channel was
  empty and closed).
\<close>

datatype log_event = LPut qmsg | LReject nat | LAttempt qmsg "go_error option"
  | LGot nat "go_error option option"

record writer_world =
  ww_heap :: heap
  ww_stream :: "qmsg message_queue"
  ww_done :: "nat \<Rightarrow> unit chan"
  ww_try :: "nat \<Rightarrow> go_error option chan"
  ww_next :: nat
  ww_history :: history
  ww_log :: "log_event list"

fun processMessage :: "sender_handler list \<Rightarrow> shared_pub \<Rightarrow> heap \<Rightarrow> (bool \<times> shared_pub \<times> heap) outcome" where
  "processMessage [] p hp = Value (True, p, hp)"
| "processMessage (f # fs) p hp = bind_outcome (f p hp) (\<lambda>(ok, p', hp').
     if ok then processMessage fs p' hp' else Value (False, p', hp'))"

definition close_done :: "nat \<Rightarrow> writer_world \<Rightarrow> writer_world outcome" where
  "close_done d w = bind_outcome (chan_close (ww_done w d)) (\<lambda>c. Value (w\<lparr>ww_done := (ww_done w)(d := c)\<rparr>))"

definition stream_put :: "qmsg \<Rightarrow> writer_world \<Rightarrow> writer_world" where
  "stream_put m w = w\<lparr>ww_stream := queue_put m (ww_stream w), ww_log := ww_log w @ [LPut m]\<rparr>"

definition stream_commit :: "writer_world \<Rightarrow> writer_world" where
  "stream_commit w = w\<lparr>ww_stream := queue_commit (ww_stream w)\<rparr>"

definition make_done :: "writer_world \<Rightarrow> writer_world" where
  "make_done w = w\<lparr>ww_done := (ww_done w)(ww_next w := chan_make 0), ww_next := Suc (ww_next w)\<rparr>"

definition make_try :: "writer_world \<Rightarrow> writer_world" where
  "make_try w = w\<lparr>ww_try := (ww_try w)(ww_next w := chan_make 1), ww_next := Suc (ww_next w)\<rparr>"

definition writer_Publish ::
    "writer_config \<Rightarrow> message \<Rightarrow> writer_world \<Rightarrow> ((nat \<times> go_error option) \<times> writer_world) outcome" where
  "writer_Publish wc ms w = (let d = ww_next w; w1 = make_done w in
     bind_outcome (processMessage (wc_middleware wc) (msg_msg ms) (ww_heap w1)) (\<lambda>(ok, p, hp).
       let w2 = w1\<lparr>ww_heap := hp\<rparr> in
       if \<not> ok then
         bind_outcome (close_done d (w2\<lparr>ww_log := ww_log w2 @ [LReject d]\<rparr>))
           (\<lambda>w3. Value ((d, Some (Err ''rejected by middleware'')), w3))
       else Value ((d, None),
         stream_put \<lparr>m_Exchange = msg_exchange ms, m_Key = msg_key ms, m_Msg = p, m_Try = None, m_Done = Some d\<rparr> w2)))"

text \<open>
  \<open>PublishWait\<close> and \<open>TrySend\<close> end in a \<open>select\<close>: the results its ready cases can return, in
  order; the empty list is a goroutine still waiting. \<open>Inl\<close> is an error returned before it.
\<close>

definition publish_wait_results :: "writer_world \<Rightarrow> nat \<Rightarrow> go_error option \<Rightarrow> go_error option list" where
  "publish_wait_results w d ctx =
     (if chan_recv (ww_done w d) = None then [] else [None]) @ (case ctx of None \<Rightarrow> [] | Some e \<Rightarrow> [Some e])"

definition PublishWait ::
    "writer_config \<Rightarrow> message \<Rightarrow> writer_world \<Rightarrow> ((go_error + nat) \<times> writer_world) outcome" where
  "PublishWait wc ms w = bind_outcome (writer_Publish wc ms w)
     (\<lambda>((d, e), w'). Value (case e of Some e' \<Rightarrow> Inl e' | None \<Rightarrow> Inr d, w'))"

definition SendContext :: "writer_config \<Rightarrow> message \<Rightarrow> writer_world \<Rightarrow> (go_error option \<times> writer_world) outcome" where
  "SendContext wc ms w = bind_outcome (writer_Publish wc ms w) (\<lambda>((d, e), w'). Value (e, w'))"

definition writer_Send :: "writer_config \<Rightarrow> message \<Rightarrow> writer_world \<Rightarrow> (nat \<times> writer_world) outcome" where
  "writer_Send wc ms w = bind_outcome (writer_Publish wc ms w) (\<lambda>((d, e), w'). Value (d, w'))"

text \<open>\<open>None\<close>: \<open>TrySend\<close> returned nil at once; \<open>Some t\<close>: it waits on channel \<open>t\<close>.\<close>

definition TrySend :: "writer_config \<Rightarrow> message \<Rightarrow> writer_world \<Rightarrow> (nat option \<times> writer_world) outcome" where
  "TrySend wc ms w = (let t = ww_next w; w1 = make_try w in
     bind_outcome (processMessage (wc_middleware wc) (msg_msg ms) (ww_heap w1)) (\<lambda>(ok, p, hp).
       let w2 = w1\<lparr>ww_heap := hp\<rparr> in
       if \<not> ok then Value (None, w2\<lparr>ww_log := ww_log w2 @ [LReject t]\<rparr>)
       else Value (Some t,
         stream_put \<lparr>m_Exchange = msg_exchange ms, m_Key = msg_key ms, m_Msg = p, m_Try = Some t, m_Done = None\<rparr> w2)))"

definition try_send_results :: "writer_world \<Rightarrow> nat \<Rightarrow> go_error option \<Rightarrow> go_error option list" where
  "try_send_results w t ctx =
     (case chan_recv (ww_try w t) of
        None \<Rightarrow> [] | Some (Some r, _) \<Rightarrow> [r] | Some (None, _) \<Rightarrow> [None]) @
     (case ctx of None \<Rightarrow> [] | Some e \<Rightarrow> [Some e])"

section \<open>publisher.ChannelReady\<close>

definition pub_setup :: "broker \<Rightarrow> writer_config \<Rightarrow> unit amqp" where
  "pub_setup b wc = guarded (wc_exchange wc \<noteq> '''')
     (call_unit b (ExchangeDeclare (wc_exchange wc) (wc_kind wc) True False False False None))"

text \<open>
  One round of the loop in two parts, as a client can put a message in between: the overflow
  check, and \<open>Peek\<close> with everything up to the next round (during which the front of the
  queue cannot change, as only this goroutine commits).
\<close>

definition pub_overflow :: "writer_config \<Rightarrow> bool \<Rightarrow> writer_world \<Rightarrow> bool \<times> writer_world" where
  "pub_overflow wc overflow w =
     (case queue_len (ww_stream w) of (n, q) \<Rightarrow>
       let w1 = w\<lparr>ww_stream := q\<rparr> in
       if int n < wc_MaxSize wc then (False, w1)
       else if \<not> overflow \<and> wc_Handler wc then (True, w1\<lparr>ww_history := ww_history w1 @ [Overflowed n]\<rparr>)
       else (overflow, w1))"

datatype pub_result = PubLoop writer_world | PubReturn go_error writer_world | PubBlock writer_world

text \<open>\<open>msg.Try <- err; close(msg.Try); Commit()\<close>\<close>

definition answer_try :: "nat \<Rightarrow> go_error option \<Rightarrow> writer_world \<Rightarrow> writer_world outcome" where
  "answer_try t err w =
     bind_outcome (chan_send (ww_try w t) err) (\<lambda>c.
     bind_outcome (chan_close c) (\<lambda>c'.
       Value (stream_commit (w\<lparr>ww_try := (ww_try w)(t := c')\<rparr>))))"

definition pub_finish :: "qmsg \<Rightarrow> go_error option \<Rightarrow> writer_world \<Rightarrow> pub_result outcome" where
  "pub_finish m err w =
     bind_outcome (case m_Try m of None \<Rightarrow> Value w | Some t \<Rightarrow> answer_try t err w) (\<lambda>w1.
       case err of
         Some e \<Rightarrow> Value (PubReturn e w1)
       | None \<Rightarrow>
           bind_outcome (case m_Done m of None \<Rightarrow> Value w1 | Some d \<Rightarrow> close_done d w1) (\<lambda>w2.
             Value (PubLoop (if m_Try m = None then stream_commit w2 else w2))))"

definition pub_round :: "broker \<Rightarrow> bool \<Rightarrow> go_error option \<Rightarrow> writer_world \<Rightarrow> pub_result outcome" where
  "pub_round b pick ctx w =
     (case queue_peek pick ctx (ww_stream w) of
        (PeekBlocks, q) \<Rightarrow> Value (PubBlock (w\<lparr>ww_stream := q\<rparr>))
      | (PeekErr e, q) \<Rightarrow> Value (PubReturn e (w\<lparr>ww_stream := q\<rparr>))
      | (Peeked m, q) \<Rightarrow>
          (case do_call b (Publish (m_Exchange m) (m_Key m) False False (wire (ww_heap w) (m_Msg m))) (ww_history w)
           of (r, h) \<Rightarrow>
             let err = (case r of Inl e \<Rightarrow> Some e | Inr _ \<Rightarrow> None) in
             pub_finish m err (w\<lparr>ww_stream := q, ww_history := h, ww_log := ww_log w @ [LAttempt m err]\<rparr>)))"

end
