(* ===== verification/Publisher.thy ===== *)
theory Publisher
  imports Writer "HOL-Library.Sublist"
begin

text \<open>
  A publisher and its clients as a transition system: clients publish, change header maps and
  read their channels at any time, the connection comes and goes, the publisher's loop takes
  its steps. The lemmas lead to the invariant \<open>writer_inv\<close>, which says how the queue, the
  clients' channels and what was published agree.
\<close>

section \<open>The system\<close>

datatype pub_pc = Offline | AtTop bool | AtPeek bool

record writer_sys =
  ws_world :: writer_world
  ws_pc :: pub_pc

definition writer_start :: "writer_sys \<Rightarrow> bool" where
  "writer_start s \<longleftrightarrow> ws_pc s = Offline \<and> ww_stream (ws_world s) = new_queue \<and>
     ww_log (ws_world s) = [] \<and> ww_history (ws_world s) = []"

inductive writer_step :: "broker \<Rightarrow> writer_config \<Rightarrow> writer_sys \<Rightarrow> writer_sys \<Rightarrow> bool"
  for b :: broker and wc :: writer_config where
  client_publish: "writer_Publish wc ms (ws_world s) = Value (r, w) \<Longrightarrow>
    writer_step b wc s (s\<lparr>ws_world := w\<rparr>)"
| client_try: "TrySend wc ms (ws_world s) = Value (r, w) \<Longrightarrow> writer_step b wc s (s\<lparr>ws_world := w\<rparr>)"
| client_answered: "t < ww_next (ws_world s) \<Longrightarrow> chan_recv (ww_try (ws_world s) t) = Some (x, c) \<Longrightarrow>
    writer_step b wc s (s\<lparr>ws_world := (ws_world s)\<lparr>ww_try := (ww_try (ws_world s))(t := c),
      ww_log := ww_log (ws_world s) @ [LGot t x]\<rparr>\<rparr>)"
| client_headers: "writer_step b wc s (s\<lparr>ws_world := (ws_world s)\<lparr>ww_heap := hp\<rparr>\<rparr>)"
| connected: "ws_pc s = Offline \<Longrightarrow> pub_setup b wc (ww_history (ws_world s)) = (Inr (), h) \<Longrightarrow>
    writer_step b wc s (s\<lparr>ws_world := (ws_world s)\<lparr>ww_history := h\<rparr>, ws_pc := AtTop False\<rparr>)"
| setup_failed: "ws_pc s = Offline \<Longrightarrow> pub_setup b wc (ww_history (ws_world s)) = (Inl e, h) \<Longrightarrow>
    writer_step b wc s (s\<lparr>ws_world := (ws_world s)\<lparr>ww_history := h\<rparr>\<rparr>)"
| loop_top: "ws_pc s = AtTop ov \<Longrightarrow> pub_overflow wc ov (ws_world s) = (ov', w) \<Longrightarrow>
    writer_step b wc s (s\<lparr>ws_world := w, ws_pc := AtPeek ov'\<rparr>)"
| loop_published: "ws_pc s = AtPeek ov \<Longrightarrow> pub_round b pick ctx (ws_world s) = Value (PubLoop w) \<Longrightarrow>
    writer_step b wc s (s\<lparr>ws_world := w, ws_pc := AtTop ov\<rparr>)"
| loop_returned: "ws_pc s = AtPeek ov \<Longrightarrow> pub_round b pick ctx (ws_world s) = Value (PubReturn e w) \<Longrightarrow>
    writer_step b wc s (s\<lparr>ws_world := w, ws_pc := Offline\<rparr>)"
| loop_waits: "ws_pc s = AtPeek ov \<Longrightarrow> pub_round b pick ctx (ws_world s) = Value (PubBlock w) \<Longrightarrow>
    writer_step b wc s (s\<lparr>ws_world := w\<rparr>)"

section \<open>What the log says\<close>

fun puts :: "log_event list \<Rightarrow> qmsg list" where
  "puts [] = []"
| "puts (LPut m # l) = m # puts l"
| "puts (_ # l) = puts l"

text \<open>
  A message is settled by an attempt that succeeded, or by any attempt if it came from
  \<open>TrySend\<close>.
\<close>

fun settled :: "log_event list \<Rightarrow> qmsg list" where
  "settled [] = []"
| "settled (LAttempt m err # l) = (if err = None \<or> m_Try m \<noteq> None then m # settled l else settled l)"
| "settled (_ # l) = settled l"

lemma puts_append [simp]: "puts (l @ l') = puts l @ puts l'"
  by (induction l rule: puts.induct) auto

lemma settled_append [simp]: "settled (l @ l') = settled l @ settled l'"
  by (induction l rule: settled.induct) auto

text \<open>What was received from a \<open>Try\<close> channel so far.\<close>

fun gots :: "nat \<Rightarrow> log_event list \<Rightarrow> go_error option option list" where
  "gots t [] = []"
| "gots t (LGot i x # l) = (if i = t then x # gots t l else gots t l)"
| "gots t (_ # l) = gots t l"

lemma gots_append [simp]: "gots t (l @ l') = gots t l @ gots t l'"
  by (induction l rule: gots.induct) auto

text \<open>The channel a message answers on, and its state before and after the answer.\<close>

definition answer_id :: "qmsg \<Rightarrow> nat option" where
  "answer_id m = (case m_Try m of Some t \<Rightarrow> Some t | None \<Rightarrow> m_Done m)"

definition one_channel :: "qmsg \<Rightarrow> bool" where
  "one_channel m \<longleftrightarrow> (m_Try m = None) \<noteq> (m_Done m = None)"

definition answer_open :: "writer_world \<Rightarrow> qmsg \<Rightarrow> bool" where
  "answer_open w m \<longleftrightarrow>
     (\<forall>d. m_Done m = Some d \<longrightarrow> \<not> ch_closed (ww_done w d)) \<and>
     (\<forall>t. m_Try m = Some t \<longrightarrow> \<not> ch_closed (ww_try w t) \<and> ch_buf (ww_try w t) = [] \<and>
        ch_cap (ww_try w t) = 1 \<and> gots t (ww_log w) = [])"

text \<open>
  An answered channel is closed, and what was received from it followed by what is still in it is
  the answer, once, and then nothing but \<open>closed\<close>.
\<close>

definition answered :: "go_error option \<Rightarrow> nat \<Rightarrow> writer_world \<Rightarrow> bool" where
  "answered err t w \<longleftrightarrow> ch_closed (ww_try w t) \<and>
     (\<exists>n. gots t (ww_log w) @ map Some (ch_buf (ww_try w t)) = Some err # replicate n None)"

section \<open>The invariant\<close>

text \<open>
  What the clients put is what was settled followed by what is queued; the messages' channels
  are distinct and allocated; those of queued messages are open and empty; a settled message of
  \<open>Publish\<close> has its channel closed, one of \<open>TrySend\<close> had the result of its attempt put into
  its channel.
\<close>

definition writer_inv :: "writer_world \<Rightarrow> bool" where
  "writer_inv w \<longleftrightarrow>
     queue_wf (ww_stream w) \<and>
     puts (ww_log w) = settled (ww_log w) @ queue_items (ww_stream w) \<and>
     distinct (map answer_id (settled (ww_log w) @ queue_items (ww_stream w))) \<and>
     (\<forall>m \<in> set (settled (ww_log w) @ queue_items (ww_stream w)).
        one_channel m \<and> (\<exists>i < ww_next w. answer_id m = Some i)) \<and>
     (\<forall>m \<in> set (queue_items (ww_stream w)). answer_open w m) \<and>
     (\<forall>m \<in> set (settled (ww_log w)). \<forall>d. m_Done m = Some d \<longrightarrow> ch_closed (ww_done w d)) \<and>
     (\<forall>m err t. LAttempt m err \<in> set (ww_log w) \<longrightarrow> m_Try m = Some t \<longrightarrow>
        m \<in> set (settled (ww_log w)) \<and> answered err t w) \<and>
     (\<forall>t. gots t (ww_log w) \<noteq> [] \<longrightarrow> t < ww_next w)"

lemma done_id: "one_channel m \<Longrightarrow> m_Done m = Some d \<Longrightarrow> answer_id m = Some d"
  by (auto simp: one_channel_def answer_id_def split: option.splits)

lemma try_id: "m_Try m = Some t \<Longrightarrow> answer_id m = Some t"
  by (simp add: answer_id_def)

lemma one_channel_cases:
  assumes "one_channel m"
  obtains (Try) t where "m_Try m = Some t" "m_Done m = None"
  | (Done) d where "m_Try m = None" "m_Done m = Some d"
  using assms by (auto simp: one_channel_def)

lemma settled_put: "writer_inv w \<Longrightarrow> m \<in> set (settled (ww_log w)) \<Longrightarrow> m \<in> set (puts (ww_log w))"
  by (simp add: writer_inv_def)

lemma queued_put: "writer_inv w \<Longrightarrow> m \<in> set (queue_items (ww_stream w)) \<Longrightarrow> m \<in> set (puts (ww_log w))"
  by (simp add: writer_inv_def)

lemma writer_start_inv: "writer_start s \<Longrightarrow> writer_inv (ws_world s)"
  by (simp add: writer_start_def writer_inv_def)

subsection \<open>Clients\<close>

lemma heap_inv [simp]: "writer_inv (w\<lparr>ww_heap := hp\<rparr>) = writer_inv w"
  by (simp add: writer_inv_def answer_open_def answered_def)

lemma history_inv [simp]: "writer_inv (w\<lparr>ww_history := h\<rparr>) = writer_inv w"
  by (simp add: writer_inv_def answer_open_def answered_def)

lemma stream_inv: "writer_inv w \<Longrightarrow> queue_wf q \<Longrightarrow> queue_items q = queue_items (ww_stream w) \<Longrightarrow>
    writer_inv (w\<lparr>ww_stream := q\<rparr>)"
  by (simp add: writer_inv_def answer_open_def answered_def)

lemma reject_inv: "writer_inv w \<Longrightarrow> writer_inv (w\<lparr>ww_log := ww_log w @ [LReject d]\<rparr>)"
  by (simp add: writer_inv_def answer_open_def answered_def)

text \<open>The parts of the invariant, one rule each.\<close>

definition known :: "writer_world \<Rightarrow> qmsg list" where
  "known w = settled (ww_log w) @ queue_items (ww_stream w)"

lemma known_simps [simp]:
  "known (w\<lparr>ww_try := x\<rparr>) = known w" "known (w\<lparr>ww_done := y\<rparr>) = known w"
  "known (w\<lparr>ww_heap := hp\<rparr>) = known w" "known (w\<lparr>ww_history := h\<rparr>) = known w"
  "known (w\<lparr>ww_next := n\<rparr>) = known w"
  by (simp_all add: known_def)

lemma writer_invD:
  assumes "writer_inv w"
  shows "queue_wf (ww_stream w)" "puts (ww_log w) = known w" "distinct (map answer_id (known w))"
    and "m \<in> set (known w) \<Longrightarrow> one_channel m"
    and "m \<in> set (known w) \<Longrightarrow> \<exists>i < ww_next w. answer_id m = Some i"
    and "m \<in> set (queue_items (ww_stream w)) \<Longrightarrow> answer_open w m"
    and "m \<in> set (settled (ww_log w)) \<Longrightarrow> m_Done m = Some d \<Longrightarrow> ch_closed (ww_done w d)"
    and "LAttempt m err \<in> set (ww_log w) \<Longrightarrow> m_Try m = Some t \<Longrightarrow> m \<in> set (settled (ww_log w))"
    and "LAttempt m err \<in> set (ww_log w) \<Longrightarrow> m_Try m = Some t \<Longrightarrow> answered err t w"
    and "gots t (ww_log w) \<noteq> [] \<Longrightarrow> t < ww_next w"
  using assms unfolding writer_inv_def known_def by blast+

lemma writer_invI:
  assumes "queue_wf (ww_stream w)" "puts (ww_log w) = known w" "distinct (map answer_id (known w))"
    and "\<And>m. m \<in> set (known w) \<Longrightarrow> one_channel m"
    and "\<And>m. m \<in> set (known w) \<Longrightarrow> \<exists>i < ww_next w. answer_id m = Some i"
    and "\<And>m. m \<in> set (queue_items (ww_stream w)) \<Longrightarrow> answer_open w m"
    and "\<And>m d. m \<in> set (settled (ww_log w)) \<Longrightarrow> m_Done m = Some d \<Longrightarrow> ch_closed (ww_done w d)"
    and "\<And>m err t. LAttempt m err \<in> set (ww_log w) \<Longrightarrow> m_Try m = Some t \<Longrightarrow> m \<in> set (settled (ww_log w))"
    and "\<And>m err t. LAttempt m err \<in> set (ww_log w) \<Longrightarrow> m_Try m = Some t \<Longrightarrow> answered err t w"
    and "\<And>t. gots t (ww_log w) \<noteq> [] \<Longrightarrow> t < ww_next w"
  shows "writer_inv w"
  using assms unfolding writer_inv_def known_def by blast

lemma known_settled: "m \<in> set (settled (ww_log w)) \<Longrightarrow> m \<in> set (known w)"
  by (simp add: known_def)

lemma known_queued: "m \<in> set (queue_items (ww_stream w)) \<Longrightarrow> m \<in> set (known w)"
  by (simp add: known_def)

lemma known_attempted: "writer_inv w \<Longrightarrow> LAttempt m err \<in> set (ww_log w) \<Longrightarrow> m_Try m = Some t \<Longrightarrow> m \<in> set (known w)"
  using writer_invD(8) known_settled by blast

lemma known_done_less: "writer_inv w \<Longrightarrow> m \<in> set (known w) \<Longrightarrow> m_Done m = Some d \<Longrightarrow> d < ww_next w"
  using writer_invD(4,5) done_id by fastforce

lemma known_try_less: "writer_inv w \<Longrightarrow> m \<in> set (known w) \<Longrightarrow> m_Try m = Some t \<Longrightarrow> t < ww_next w"
  using writer_invD(5) try_id by fastforce

text \<open>A fresh channel is nobody's answer, so what happens to it does not matter to the others.\<close>

lemma fresh_channels_inv:
  assumes inv: "writer_inv w" and le: "ww_next w \<le> ww_next w'"
    and same: "ww_stream w' = ww_stream w" "ww_log w' = ww_log w"
      "\<And>i. i < ww_next w \<Longrightarrow> ww_done w' i = ww_done w i" "\<And>i. i < ww_next w \<Longrightarrow> ww_try w' i = ww_try w i"
  shows "writer_inv w'"
proof (rule writer_invI)
  have [simp]: "known w' = known w" by (simp add: known_def same)
  show "queue_wf (ww_stream w')" "puts (ww_log w') = known w'" "distinct (map answer_id (known w'))"
    using writer_invD(1-3) [OF inv] by (simp_all add: same)
  fix m
  show "m \<in> set (known w') \<Longrightarrow> one_channel m" using writer_invD(4) [OF inv] by simp
  show "m \<in> set (known w') \<Longrightarrow> \<exists>i < ww_next w'. answer_id m = Some i"
    using writer_invD(5) [OF inv, of m] le by (auto dest: less_le_trans)
  show "m \<in> set (queue_items (ww_stream w')) \<Longrightarrow> answer_open w' m"
    using writer_invD(6) [OF inv, of m] known_done_less [OF inv, of m] known_try_less [OF inv, of m]
    by (auto simp: answer_open_def same known_queued)
  fix d t err
  show "m \<in> set (settled (ww_log w')) \<Longrightarrow> m_Done m = Some d \<Longrightarrow> ch_closed (ww_done w' d)"
    using writer_invD(7) [OF inv, of m d] known_done_less [OF inv, of m d] by (simp add: same known_settled)
  show "LAttempt m err \<in> set (ww_log w') \<Longrightarrow> m_Try m = Some t \<Longrightarrow> m \<in> set (settled (ww_log w'))"
    using writer_invD(8) [OF inv, of m err t] by (simp add: same)
  show "LAttempt m err \<in> set (ww_log w') \<Longrightarrow> m_Try m = Some t \<Longrightarrow> answered err t w'"
    using writer_invD(9) [OF inv, of m err t] known_attempted [OF inv, of m err t] known_try_less [OF inv, of m t]
    by (simp add: same answered_def)
  show "gots t (ww_log w') \<noteq> [] \<Longrightarrow> t < ww_next w'"
    using writer_invD(10) [OF inv, of t] le by (simp add: same)
qed

lemma make_done_inv: "writer_inv w \<Longrightarrow> writer_inv (make_done w)"
  by (rule fresh_channels_inv) (auto simp: make_done_def)

lemma make_try_inv: "writer_inv w \<Longrightarrow> writer_inv (make_try w)"
  by (rule fresh_channels_inv) (auto simp: make_try_def)

lemma stream_put_known: "queue_wf (ww_stream w) \<Longrightarrow> known (stream_put m w) = known w @ [m]"
  by (simp add: known_def stream_put_def)

lemma stream_put_inv:
  assumes inv: "writer_inv w" and m: "one_channel m" "answer_id m = Some i" "i < ww_next w" "answer_open w m"
    and fresh: "\<And>m'. m' \<in> set (known w) \<Longrightarrow> answer_id m' \<noteq> Some i"
  shows "writer_inv (stream_put m w)"
proof (rule writer_invI)
  note [simp] = stream_put_known [OF writer_invD(1) [OF inv]]
  show "queue_wf (ww_stream (stream_put m w))"
    using writer_invD(1) [OF inv] by (simp add: stream_put_def)
  show "puts (ww_log (stream_put m w)) = known (stream_put m w)"
    using writer_invD(2) [OF inv] by simp (simp add: stream_put_def)
  show "distinct (map answer_id (known (stream_put m w)))"
    using writer_invD(3) [OF inv] fresh m(2) by simp (metis imageE)
  fix m'
  show "m' \<in> set (known (stream_put m w)) \<Longrightarrow> one_channel m'"
    using writer_invD(4) [OF inv] m(1) by auto
  show "m' \<in> set (known (stream_put m w)) \<Longrightarrow> \<exists>i < ww_next (stream_put m w). answer_id m' = Some i"
    using writer_invD(5) [OF inv, of m'] m(2,3) by auto (auto simp: stream_put_def)
  show "m' \<in> set (queue_items (ww_stream (stream_put m w))) \<Longrightarrow> answer_open (stream_put m w) m'"
    using writer_invD(1,6) [OF inv] m(4) by (auto simp: stream_put_def answer_open_def)
qed (use writer_invD(7-10) [OF inv] in \<open>auto simp: stream_put_def answered_def\<close>)

lemma next_id_fresh: "writer_inv w \<Longrightarrow> m \<in> set (known w) \<Longrightarrow> answer_id m \<noteq> Some (ww_next w)"
  using writer_invD(5) by fastforce

text \<open>
  \<open>Publish\<close> and \<open>TrySend\<close> allocate a channel and put a message that answers on it, or put
  nothing.
\<close>

definition done_qmsg :: "message \<Rightarrow> shared_pub \<Rightarrow> nat \<Rightarrow> qmsg" where
  "done_qmsg ms p d = \<lparr>m_Exchange = msg_exchange ms, m_Key = msg_key ms, m_Msg = p, m_Try = None, m_Done = Some d\<rparr>"

lemma done_qmsg_fields: "m_Exchange (done_qmsg ms p d) = msg_exchange ms" "m_Key (done_qmsg ms p d) = msg_key ms"
  by (simp_all add: done_qmsg_def)

definition try_qmsg :: "message \<Rightarrow> shared_pub \<Rightarrow> nat \<Rightarrow> qmsg" where
  "try_qmsg ms p t = \<lparr>m_Exchange = msg_exchange ms, m_Key = msg_key ms, m_Msg = p, m_Try = Some t, m_Done = None\<rparr>"

lemma writer_Publish_cases:
  "writer_Publish wc ms w =
     bind_outcome (processMessage (wc_middleware wc) (msg_msg ms) (ww_heap w)) (\<lambda>(ok, p, hp).
        if ok then Value ((ww_next w, None), stream_put (done_qmsg ms p (ww_next w)) ((make_done w)\<lparr>ww_heap := hp\<rparr>))
        else Value ((ww_next w, Some (Err ''rejected by middleware'')),
          (make_done w)\<lparr>ww_heap := hp, ww_log := ww_log w @ [LReject (ww_next w)],
             ww_done := (ww_done w)(ww_next w := (chan_make 0)\<lparr>ch_closed := True\<rparr>)\<rparr>))"
  by (cases "processMessage (wc_middleware wc) (msg_msg ms) (ww_heap w)")
    (simp_all add: writer_Publish_def make_done_def Let_def close_done_def chan_close_def done_qmsg_def
      split: prod.split)

lemma TrySend_cases:
  "TrySend wc ms w =
     bind_outcome (processMessage (wc_middleware wc) (msg_msg ms) (ww_heap w)) (\<lambda>(ok, p, hp).
        if ok then Value (Some (ww_next w), stream_put (try_qmsg ms p (ww_next w)) ((make_try w)\<lparr>ww_heap := hp\<rparr>))
        else Value (None, (make_try w)\<lparr>ww_heap := hp, ww_log := ww_log w @ [LReject (ww_next w)]\<rparr>))"
  by (cases "processMessage (wc_middleware wc) (msg_msg ms) (ww_heap w)")
    (simp_all add: TrySend_def make_try_def Let_def try_qmsg_def split: prod.split)

lemma put_done_inv:
  assumes "writer_inv w"
  shows "writer_inv (stream_put (done_qmsg ms p (ww_next w)) ((make_done w)\<lparr>ww_heap := hp\<rparr>))"
proof (rule stream_put_inv [where i = "ww_next w"])
  show "answer_id m' \<noteq> Some (ww_next w)" if "m' \<in> set (known ((make_done w)\<lparr>ww_heap := hp\<rparr>))" for m'
    using that next_id_fresh [OF assms] by (simp add: known_def make_done_def)
qed (use assms make_done_inv in \<open>auto simp: done_qmsg_def one_channel_def answer_id_def make_done_def answer_open_def\<close>)

lemma put_try_inv:
  assumes "writer_inv w"
  shows "writer_inv (stream_put (try_qmsg ms p (ww_next w)) ((make_try w)\<lparr>ww_heap := hp\<rparr>))"
proof (rule stream_put_inv [where i = "ww_next w"])
  show "answer_id m' \<noteq> Some (ww_next w)" if "m' \<in> set (known ((make_try w)\<lparr>ww_heap := hp\<rparr>))" for m'
    using that next_id_fresh [OF assms] by (simp add: known_def make_try_def)
  have "gots (ww_next w) (ww_log w) = []" using writer_invD(10) [OF assms] by blast
  then show "answer_open ((make_try w)\<lparr>ww_heap := hp\<rparr>) (try_qmsg ms p (ww_next w))"
    by (simp add: answer_open_def try_qmsg_def make_try_def)
qed (use make_try_inv [OF assms] in \<open>simp_all add: try_qmsg_def one_channel_def answer_id_def make_try_def\<close>)

lemma writer_Publish_inv: "writer_Publish wc ms w = Value (r, w') \<Longrightarrow> writer_inv w \<Longrightarrow> writer_inv w'"
  using put_done_inv [of w ms] reject_inv [of w "ww_next w"]
  by (auto simp: writer_Publish_cases bind_outcome_Value_iff make_done_def split: prod.splits if_splits
      intro: fresh_channels_inv [of "w\<lparr>ww_log := ww_log w @ [LReject (ww_next w)]\<rparr>"])

lemma TrySend_inv: "TrySend wc ms w = Value (r, w') \<Longrightarrow> writer_inv w \<Longrightarrow> writer_inv w'"
  using put_try_inv [of w ms] reject_inv [of w "ww_next w"]
  by (auto simp: TrySend_cases bind_outcome_Value_iff make_try_def split: prod.splits if_splits
      intro: fresh_channels_inv [of "w\<lparr>ww_log := ww_log w @ [LReject (ww_next w)]\<rparr>"])

text \<open>A client that reads its \<open>Try\<close> channel takes the answer out of it.\<close>

lemma replicate_none_snoc: "xs = y # replicate n None \<Longrightarrow> \<exists>n'. xs @ [None] = y # replicate n' None"
  by (intro exI [of _ "Suc n"]) (simp add: replicate_append_same)

lemma answered_recv:
  assumes "answered err t w" "chan_recv (ww_try w t') = Some (x, c)"
  shows "answered err t (w\<lparr>ww_try := (ww_try w)(t' := c), ww_log := ww_log w @ [LGot t' x]\<rparr>)"
proof (cases "t' = t")
  case True
  from assms(1) obtain n where closed: "ch_closed (ww_try w t)"
    and n: "gots t (ww_log w) @ map Some (ch_buf (ww_try w t)) = Some err # replicate n None"
    by (auto simp: answered_def)
  show ?thesis
  proof (cases "ch_buf (ww_try w t)")
    case Nil
    with True assms(2) closed have "x = None" "c = ww_try w t" by (auto simp: chan_recv_def)
    with True closed n Nil replicate_none_snoc [of "gots t (ww_log w)" "Some err" n]
    show ?thesis by (simp add: answered_def)
  next
    case (Cons y ys)
    with True assms(2) closed have "x = Some y" "c = (ww_try w t)\<lparr>ch_buf := ys\<rparr>"
      by (auto simp: chan_recv_def)
    with True closed n Cons show ?thesis unfolding answered_def by (intro conjI exI [of _ n]) simp_all
  qed
next
  case False
  with assms(1) show ?thesis by (simp add: answered_def)
qed

lemma client_answered_inv:
  assumes inv: "writer_inv w" and recv: "chan_recv (ww_try w t) = Some (x, c)" and t: "t < ww_next w"
  shows "writer_inv (w\<lparr>ww_try := (ww_try w)(t := c), ww_log := ww_log w @ [LGot t x]\<rparr>)" (is "writer_inv ?w")
proof (rule writer_invI)
  have [simp]: "known ?w = known w" by (simp add: known_def)
  show "queue_wf (ww_stream ?w)" "puts (ww_log ?w) = known ?w" "distinct (map answer_id (known ?w))"
    using writer_invD(1-3) [OF inv] by simp_all
  fix m
  show "m \<in> set (known ?w) \<Longrightarrow> one_channel m" "m \<in> set (known ?w) \<Longrightarrow> \<exists>i < ww_next ?w. answer_id m = Some i"
    using writer_invD(4,5) [OF inv, of m] by simp_all
  show "answer_open ?w m" if "m \<in> set (queue_items (ww_stream ?w))"
    using that recv writer_invD(6) [OF inv, of m] by (auto simp: answer_open_def chan_recv_def)
  fix err t' d
  show "m \<in> set (settled (ww_log ?w)) \<Longrightarrow> m_Done m = Some d \<Longrightarrow> ch_closed (ww_done ?w d)"
    using writer_invD(7) [OF inv, of m d] by simp
  show "LAttempt m err \<in> set (ww_log ?w) \<Longrightarrow> m_Try m = Some t' \<Longrightarrow> m \<in> set (settled (ww_log ?w))"
    using writer_invD(8) [OF inv, of m err t'] by simp
  show "answered err t' ?w" if "LAttempt m err \<in> set (ww_log ?w)" "m_Try m = Some t'"
    using that recv writer_invD(9) [OF inv, of m err t'] by (auto intro: answered_recv)
  show "gots t' (ww_log ?w) \<noteq> [] \<Longrightarrow> t' < ww_next ?w"
    using writer_invD(10) [OF inv, of t'] t by (auto split: if_splits)
qed

subsection \<open>The publisher's round\<close>

lemma stream_commit_known:
  "queue_wf (ww_stream w) \<Longrightarrow> known (stream_commit w) = settled (ww_log w) @ tl (queue_items (ww_stream w))"
  by (simp add: known_def stream_commit_def)

text \<open>What is left of the world once a message was attempted, by the kind of its channel.\<close>

definition after_try :: "qmsg \<Rightarrow> nat \<Rightarrow> go_error option \<Rightarrow> writer_world \<Rightarrow> writer_world" where
  "after_try m t err w = stream_commit (w\<lparr>ww_log := ww_log w @ [LAttempt m err],
     ww_try := (ww_try w)(t := \<lparr>ch_cap = 1, ch_buf = [err], ch_closed = True\<rparr>)\<rparr>)"

definition after_done :: "qmsg \<Rightarrow> nat \<Rightarrow> writer_world \<Rightarrow> writer_world" where
  "after_done m d w = stream_commit (w\<lparr>ww_log := ww_log w @ [LAttempt m None],
     ww_done := (ww_done w)(d := (ww_done w d)\<lparr>ch_closed := True\<rparr>)\<rparr>)"

definition after_failure :: "qmsg \<Rightarrow> go_error \<Rightarrow> writer_world \<Rightarrow> writer_world" where
  "after_failure m e w = w\<lparr>ww_log := ww_log w @ [LAttempt m (Some e)]\<rparr>"

lemma pub_finish_try:
  assumes "answer_open w m" "m_Try m = Some t" "m_Done m = None"
  shows "pub_finish m err (w\<lparr>ww_log := ww_log w @ [LAttempt m err]\<rparr>) =
    Value (case err of None \<Rightarrow> PubLoop (after_try m t err w) | Some e \<Rightarrow> PubReturn e (after_try m t err w))"
proof -
  have "ww_try w t = \<lparr>ch_cap = 1, ch_buf = [], ch_closed = False\<rparr>"
    using assms(1,2) by (cases "ww_try w t") (auto simp: answer_open_def)
  with assms(2,3) show ?thesis
    by (simp add: pub_finish_def answer_try_def chan_send_def chan_close_def after_try_def split: option.split)
qed

lemma pub_finish_done:
  assumes "answer_open w m" "m_Try m = None" "m_Done m = Some d"
  shows "pub_finish m err (w\<lparr>ww_log := ww_log w @ [LAttempt m err]\<rparr>) =
    Value (case err of None \<Rightarrow> PubLoop (after_done m d w) | Some e \<Rightarrow> PubReturn e (after_failure m e w))"
  using assms
  by (auto simp: pub_finish_def close_done_def chan_close_def after_done_def after_failure_def answer_open_def
      split: option.split)

lemma other_answer:
  assumes "writer_inv w" "queue_items (ww_stream w) = m # ms" "m' \<in> set (settled (ww_log w) @ ms)"
  shows "answer_id m' \<noteq> answer_id m"
  using writer_invD(3) [OF assms(1)] assms(2,3)
  by (simp add: known_def) (metis imageI)

lemma answer_open_tail:
  assumes "writer_inv w" "queue_items (ww_stream w) = m # ms" "m' \<in> set ms"
  shows "answer_open w m'"
  using writer_invD(6) [OF assms(1), of m'] assms(2,3) by simp

lemma settle_inv:
  assumes inv: "writer_inv w" and q: "queue_items (ww_stream w) = m # ms"
    and w': "ww_stream w' = queue_commit (ww_stream w)" "ww_log w' = ww_log w @ [LAttempt m err]"
      "ww_next w' = ww_next w" "err = None \<or> m_Try m \<noteq> None"
    and done_frame: "\<And>d. Some d \<noteq> answer_id m \<Longrightarrow> ww_done w' d = ww_done w d"
    and try_frame: "\<And>t. Some t \<noteq> answer_id m \<Longrightarrow> ww_try w' t = ww_try w t"
    and done_closed: "\<And>d. m_Done m = Some d \<Longrightarrow> ch_closed (ww_done w' d)"
    and try_answered: "\<And>t. m_Try m = Some t \<Longrightarrow> answered err t w'"
  shows "writer_inv w'"
proof (rule writer_invI)
  have wf: "queue_wf (ww_stream w)" using inv by (rule writer_invD)
  have set': "settled (ww_log w') = settled (ww_log w) @ [m]" using w' by simp
  have q': "queue_items (ww_stream w') = ms" using w' q wf by simp
  have kn: "known w' = known w" by (simp add: known_def set' q' q)
  show "queue_wf (ww_stream w')" using wf w' by simp
  show "puts (ww_log w') = known w'" using writer_invD(2) [OF inv] w' kn by simp
  show "distinct (map answer_id (known w'))" using writer_invD(3) [OF inv] kn by simp
  fix m' d t err'
  show "m' \<in> set (known w') \<Longrightarrow> one_channel m'" using writer_invD(4) [OF inv] kn by simp
  show "m' \<in> set (known w') \<Longrightarrow> \<exists>i < ww_next w'. answer_id m' = Some i"
    using writer_invD(5) [OF inv] kn w' by simp
  have one: "m' \<in> set (known w) \<Longrightarrow> one_channel m'" using writer_invD(4) [OF inv] .
  show "answer_open w' m'" if "m' \<in> set (queue_items (ww_stream w'))"
  proof -
    from that q' have m': "m' \<in> set ms" by simp
    then have "answer_id m' \<noteq> answer_id m" using other_answer [OF inv q] by simp
    moreover have "one_channel m'" using one m' q by (simp add: known_def)
    ultimately show ?thesis
      using answer_open_tail [OF inv q m'] done_frame try_frame w'(2)
      by (auto simp: answer_open_def done_id try_id)
  qed
  show "ch_closed (ww_done w' d)" if "m' \<in> set (settled (ww_log w'))" "m_Done m' = Some d"
  proof (cases "m' = m")
    case True
    with that done_closed show ?thesis by simp
  next
    case False
    with that set' have m': "m' \<in> set (settled (ww_log w))" by simp
    then have "answer_id m' \<noteq> answer_id m" using other_answer [OF inv q] by simp
    moreover have "answer_id m' = Some d" using one m' that(2) by (simp add: known_settled done_id)
    ultimately show ?thesis using writer_invD(7) [OF inv m' that(2)] done_frame by metis
  qed
  show "m' \<in> set (settled (ww_log w'))" if "LAttempt m' err' \<in> set (ww_log w')" "m_Try m' = Some t"
    using that writer_invD(8) [OF inv, of m' err' t] w' set' by auto
  show "gots t (ww_log w') \<noteq> [] \<Longrightarrow> t < ww_next w'"
    using writer_invD(10) [OF inv, of t] w' by simp
  show "answered err' t w'" if att: "LAttempt m' err' \<in> set (ww_log w')" "m_Try m' = Some t"
  proof (cases "LAttempt m' err' \<in> set (ww_log w)")
    case True
    then have "m' \<in> set (settled (ww_log w))" using writer_invD(8) [OF inv] att(2) by blast
    then have "answer_id m' \<noteq> answer_id m" using other_answer [OF inv q] by simp
    then have "ww_try w' t = ww_try w t" using try_frame try_id [OF att(2)] by metis
    then show ?thesis using writer_invD(9) [OF inv True att(2)] w'(2) by (simp add: answered_def)
  next
    case False
    with att w' show ?thesis using try_answered by auto
  qed
qed

lemma failure_inv:
  assumes "writer_inv w" "m_Try m = None"
  shows "writer_inv (after_failure m e w)"
  using assms unfolding after_failure_def writer_inv_def by (auto simp: answer_open_def answered_def)

lemma pub_finish_inv:
  assumes inv: "writer_inv w" and q: "queue_items (ww_stream w) = m # ms"
  shows "\<exists>w'. pub_finish m err (w\<lparr>ww_log := ww_log w @ [LAttempt m err]\<rparr>) =
      Value (case err of None \<Rightarrow> PubLoop w' | Some e \<Rightarrow> PubReturn e w') \<and> writer_inv w' \<and>
    ww_log w' = ww_log w @ [LAttempt m err] \<and>
    (if err = None \<or> m_Try m \<noteq> None then queue_items (ww_stream w') = ms else ww_stream w' = ww_stream w)"
proof -
  have wf: "queue_wf (ww_stream w)" and op: "answer_open w m"
    using writer_invD(1,6) [OF inv] q by simp_all
  have "one_channel m" using writer_invD(4) [OF inv, of m] q by (simp add: known_def)
  then show ?thesis
  proof (cases rule: one_channel_cases)
    case (Try t)
    let ?w' = "after_try m t err w"
    have "writer_inv ?w'"
      using op
      by (intro settle_inv [OF inv q, of _ err])
        (auto simp: after_try_def stream_commit_def Try answered_def answer_id_def answer_open_def)
    moreover have "queue_items (ww_stream ?w') = ms"
      using wf q by (simp add: after_try_def stream_commit_def)
    ultimately show ?thesis
      using pub_finish_try [OF op Try] Try
      by (intro exI [of _ ?w']) (simp add: after_try_def stream_commit_def)
  next
    case (Done d)
    show ?thesis
    proof (cases err)
      case None
      let ?w' = "after_done m d w"
      have "writer_inv ?w'"
        by (rule settle_inv [OF inv q])
          (auto simp: after_done_def stream_commit_def Done answer_id_def)
      moreover have "queue_items (ww_stream ?w') = ms"
        using wf q by (simp add: after_done_def stream_commit_def)
      ultimately show ?thesis
        using pub_finish_done [OF op Done] None
        by (intro exI [of _ ?w']) (simp add: after_done_def stream_commit_def)
    next
      case (Some e)
      then show ?thesis
        using pub_finish_done [OF op Done] failure_inv [OF inv Done(1)] Done
        by (intro exI [of _ "after_failure m e w"]) (simp add: after_failure_def)
    qed
  qed
qed

lemma answered_buffered:
  assumes "answered err t w" "gots t (ww_log w) = []"
  shows "ch_closed (ww_try w t) \<and> ch_buf (ww_try w t) = [err]"
proof -
  from assms obtain n where n: "ch_closed (ww_try w t)" "map Some (ch_buf (ww_try w t)) = Some err # replicate n None"
    by (auto simp: answered_def)
  then have "n = 0" by (cases n) (auto simp: map_eq_Cons_conv)
  with n show ?thesis by auto
qed

text \<open>One round, from any state of the invariant: it never panics, blocks for good or breaks it.\<close>

lemma pub_round_cases:
  assumes inv: "writer_inv w"
  obtains (published) m ms w' where "queue_items (ww_stream w) = m # ms" "writer_inv w'"
      "pub_round b pick ctx w = Value (PubLoop w')" "queue_items (ww_stream w') = ms"
      "ww_log w' = ww_log w @ [LAttempt m None]"
  | (failed) m ms e w' where "queue_items (ww_stream w) = m # ms" "writer_inv w'"
      "pub_round b pick ctx w = Value (PubReturn e w')" "ww_log w' = ww_log w @ [LAttempt m (Some e)]"
      "queue_items (ww_stream w') = (if m_Try m = None then m # ms else ms)"
      "\<And>t. m_Try m = Some t \<Longrightarrow> ch_closed (ww_try w' t) \<and> ch_buf (ww_try w' t) = [Some e]"
  | (cancelled) e w' where "queue_items (ww_stream w) = []" "ctx = Some e" "writer_inv w'"
      "pub_round b pick ctx w = Value (PubReturn e w')" "ww_log w' = ww_log w" "queue_items (ww_stream w') = []"
  | (waiting) w' where "queue_items (ww_stream w) = []" "ctx = None" "writer_inv w'"
      "pub_round b pick ctx w = Value (PubBlock w')" "ww_log w' = ww_log w" "queue_items (ww_stream w') = []"
proof (cases "queue_peek pick ctx (ww_stream w)")
  case (Pair r q)
  have wf: "queue_wf (ww_stream w)" using inv by (rule writer_invD)
  show ?thesis
  proof (cases r)
    case (Peeked m)
    have peek: "queue_peek pick ctx (ww_stream w) = (Peeked m, q)" using Pair Peeked by simp
    define ms where "ms = queue_items (queue_commit q)"
    have q: "queue_wf q" "queue_items q = m # ms" "queue_items (ww_stream w) = m # ms"
      using mq.peeked_front [OF wf peek] by (simp_all only: ms_def)
    obtain a h where a: "do_call b (Publish (m_Exchange m) (m_Key m) False False (wire (ww_heap w) (m_Msg m)))
        (ww_history w) = (a, h)" by (meson surj_pair)
    define err where "err = (case a of Inl e \<Rightarrow> Some e | Inr _ \<Rightarrow> None)"
    define w1 where "w1 = w\<lparr>ww_stream := q, ww_history := h\<rparr>"
    have inv1: "writer_inv w1" unfolding w1_def using stream_inv [OF inv q(1)] q by simp
    have q1: "queue_items (ww_stream w1) = m # ms" using q by (simp add: w1_def)
    obtain w' where
      fin: "pub_finish m err (w1\<lparr>ww_log := ww_log w1 @ [LAttempt m err]\<rparr>) =
        Value (case err of None \<Rightarrow> PubLoop w' | Some e \<Rightarrow> PubReturn e w')"
      and w': "writer_inv w'" "ww_log w' = ww_log w1 @ [LAttempt m err]"
        "if err = None \<or> m_Try m \<noteq> None then queue_items (ww_stream w') = ms else ww_stream w' = ww_stream w1"
      using pub_finish_inv [OF inv1 q1, of err] by blast
    have round: "pub_round b pick ctx w = Value (case err of None \<Rightarrow> PubLoop w' | Some e \<Rightarrow> PubReturn e w')"
      using fin Pair Peeked a by (simp add: pub_round_def Let_def err_def w1_def)
    show ?thesis
    proof (cases a)
      case (Inl e)
      have told: "ch_closed (ww_try w' t) \<and> ch_buf (ww_try w' t) = [Some e]" if t: "m_Try m = Some t" for t
      proof (rule answered_buffered)
        show "answered (Some e) t w'"
          using writer_invD(9) [OF w'(1) _ t, of "Some e"] w'(2) Inl by (simp add: err_def)
        show "gots t (ww_log w') = []"
          using writer_invD(6) [OF inv, of m] q(3) t w'(2) by (simp add: answer_open_def w1_def)
      qed
      from Inl round w' q told show ?thesis
        by (intro failed [of m ms w' e]) (auto simp: err_def w1_def split: if_splits)
    next
      case (Inr n)
      with round w' q show ?thesis by (intro published [of m ms w']) (auto simp: err_def w1_def)
    qed
  next
    case (PeekErr e)
    then show ?thesis
      using mq.peek_failed [OF wf] Pair stream_inv [OF inv, of q]
      by (intro cancelled [of e "w\<lparr>ww_stream := q\<rparr>"]) (auto simp: pub_round_def)
  next
    case PeekBlocks
    then show ?thesis
      using mq.peek_blocked [OF wf] Pair stream_inv [OF inv, of q]
      by (intro waiting [of "w\<lparr>ww_stream := q\<rparr>"]) (auto simp: pub_round_def)
  qed
qed

lemma pub_overflow_inv:
  assumes "writer_inv w" "pub_overflow wc ov w = (ov', w')"
  shows "writer_inv w' \<and> ww_log w' = ww_log w \<and> queue_items (ww_stream w') = queue_items (ww_stream w)"
proof -
  obtain n q where nq: "queue_len (ww_stream w) = (n, q)" by fastforce
  then have "queue_wf q" "queue_items q = queue_items (ww_stream w)"
    using mq.len_state [OF writer_invD(1) [OF assms(1)]] by simp_all
  then show ?thesis
    using assms stream_inv [OF assms(1), of q] nq
    by (auto simp: pub_overflow_def Let_def split: if_splits)
qed

lemma writer_step_inv: "writer_step b wc s t \<Longrightarrow> writer_inv (ws_world s) \<Longrightarrow> writer_inv (ws_world t)"
proof (induction rule: writer_step.induct)
  case (loop_published s ov pick ctx w)
  then show ?case by (cases rule: pub_round_cases [OF loop_published(3), of b pick ctx]) auto
next
  case (loop_returned s ov pick ctx e w)
  then show ?case by (cases rule: pub_round_cases [OF loop_returned(3), of b pick ctx]) auto
next
  case (loop_waits s ov pick ctx w)
  then show ?case by (cases rule: pub_round_cases [OF loop_waits(3), of b pick ctx]) auto
qed (auto dest: writer_Publish_inv TrySend_inv pub_overflow_inv client_answered_inv)

interpretation writer_runs: invariant_system writer_start "writer_step b wc" "\<lambda>s. writer_inv (ws_world s)" for b wc
  by unfold_locales (auto intro: writer_start_inv writer_step_inv)

lemmas reachable_writer_inv = writer_runs.reachable_inv

text \<open>The log only grows.\<close>

lemma writer_Publish_log: "writer_Publish wc ms w = Value (r, w') \<Longrightarrow> \<exists>l. ww_log w' = ww_log w @ l"
  by (auto simp: writer_Publish_cases bind_outcome_Value_iff make_done_def stream_put_def split: if_splits)

lemma TrySend_log: "TrySend wc ms w = Value (r, w') \<Longrightarrow> \<exists>l. ww_log w' = ww_log w @ l"
  by (auto simp: TrySend_cases bind_outcome_Value_iff make_try_def stream_put_def split: if_splits)

lemma writer_step_log:
  "writer_step b wc s t \<Longrightarrow> writer_inv (ws_world s) \<Longrightarrow> \<exists>l. ww_log (ws_world t) = ww_log (ws_world s) @ l"
proof (induction rule: writer_step.induct)
  case (loop_published s ov pick ctx w)
  then show ?case by (cases rule: pub_round_cases [OF loop_published(3), of b pick ctx]) auto
next
  case (loop_returned s ov pick ctx e w)
  then show ?case by (cases rule: pub_round_cases [OF loop_returned(3), of b pick ctx]) auto
next
  case (loop_waits s ov pick ctx w)
  then show ?case by (cases rule: pub_round_cases [OF loop_waits(3), of b pick ctx]) auto
qed (auto dest: writer_Publish_log TrySend_log pub_overflow_inv)

section \<open>What the log has to do with the broker and the clients\<close>

text \<open>
  The publishings of a history that \<open>ch.Publish\<close> answered with nil, in order: exchange, routing
  key and message, all but its header map, which the clients share and may change. The same of a
  queued message.
\<close>

definition accepted :: "history \<Rightarrow> (string \<times> string \<times> msg_out) list" where
  "accepted h = concat (map (\<lambda>e. case e of
      Did (Publish ex k _ _ p) (Inr _) \<Rightarrow> [(ex, k, p\<lparr>p_Headers := None\<rparr>)] | _ \<Rightarrow> []) h)"

definition on_wire :: "qmsg \<Rightarrow> string \<times> string \<times> msg_out" where
  "on_wire m = (m_Exchange m, m_Key m, wire \<lparr>hp_table = \<lambda>_. [], hp_next = 0\<rparr> ((m_Msg m)\<lparr>p_Headers := None\<rparr>))"

lemma on_wire_any_heap: "on_wire m = (m_Exchange m, m_Key m, (wire hp (m_Msg m))\<lparr>p_Headers := None\<rparr>)"
  by (simp add: on_wire_def wire_def)

text \<open>The messages a log says were published, in order.\<close>

fun published :: "log_event list \<Rightarrow> qmsg list" where
  "published [] = []"
| "published (LAttempt m None # l) = m # published l"
| "published (_ # l) = published l"

lemma published_append [simp]: "published (l @ l') = published l @ published l'"
  by (induction l rule: published.induct) auto

lemma published_mem: "m \<in> set (published l) \<longleftrightarrow> LAttempt m None \<in> set l"
  by (induction l rule: published.induct) auto


lemma published_settled: "subseq (published l) (settled l)"
  by (induction l rule: published.induct) auto

lemma published_eq_settled: "list_all (\<lambda>m. m_Try m = None) (settled l) \<Longrightarrow> published l = settled l"
  by (induction l rule: published.induct) (auto split: if_splits)

lemma accepted_append [simp]: "accepted (h @ h') = accepted h @ accepted h'"
  by (simp add: accepted_def)

lemma accepted_pub_setup: "pub_setup b wc h = (r, h') \<Longrightarrow> accepted h' = accepted h"
  by (auto simp: pub_setup_def amqp_defs Let_def split: if_splits sum.splits prod.splits)
    (simp_all add: accepted_def split: sum.split)

definition log_matches :: "writer_world \<Rightarrow> bool" where
  "log_matches w \<longleftrightarrow> accepted (ww_history w) = map on_wire (published (ww_log w))"

lemma answer_try_frame:
  "answer_try t err w = Value w' \<Longrightarrow> ww_log w' = ww_log w \<and> ww_history w' = ww_history w"
  by (auto simp: answer_try_def bind_outcome_Value_iff stream_commit_def)

lemma close_done_frame:
  "close_done d w = Value w' \<Longrightarrow> ww_log w' = ww_log w \<and> ww_history w' = ww_history w"
  by (auto simp: close_done_def bind_outcome_Value_iff)

fun result_world :: "pub_result \<Rightarrow> writer_world" where
  "result_world (PubLoop w) = w"
| "result_world (PubReturn e w) = w"
| "result_world (PubBlock w) = w"

lemma pub_finish_frame:
  assumes "pub_finish m err w = Value r"
  shows "ww_log (result_world r) = ww_log w \<and> ww_history (result_world r) = ww_history w"
proof -
  obtain w1 where try_done: "(case m_Try m of None \<Rightarrow> Value w | Some t \<Rightarrow> answer_try t err w) = Value w1"
    and rest: "(case err of Some e \<Rightarrow> Value (PubReturn e w1)
       | None \<Rightarrow> bind_outcome (case m_Done m of None \<Rightarrow> Value w1 | Some d \<Rightarrow> close_done d w1) (\<lambda>w2.
             Value (PubLoop (if m_Try m = None then stream_commit w2 else w2)))) = Value r"
    using assms unfolding pub_finish_def bind_outcome_Value_iff by blast
  have w1: "ww_log w1 = ww_log w" "ww_history w1 = ww_history w"
    using try_done by (cases "m_Try m"; auto dest: answer_try_frame)+
  show ?thesis
  proof (cases err)
    case None
    with rest obtain w2 where "ww_log w2 = ww_log w1" "ww_history w2 = ww_history w1"
      "r = PubLoop (if m_Try m = None then stream_commit w2 else w2)"
      by (cases "m_Done m") (auto simp: bind_outcome_Value_iff dest: close_done_frame)
    with w1 show ?thesis by (simp add: stream_commit_def)
  qed (use w1 rest in auto)
qed

text \<open>Nothing is ever sent on a \<open>Done\<close> channel.\<close>

lemma answer_try_done: "answer_try t err w = Value w' \<Longrightarrow> ww_done w' = ww_done w"
  by (auto simp: answer_try_def bind_outcome_Value_iff stream_commit_def)

lemma close_done_buf: "close_done d w = Value w' \<Longrightarrow> ch_buf (ww_done w' i) = ch_buf (ww_done w i)"
  by (auto simp: close_done_def chan_close_def bind_outcome_Value_iff split: if_splits)

lemma pub_finish_buf: "pub_finish m err w = Value r \<Longrightarrow> ch_buf (ww_done (result_world r) i) = ch_buf (ww_done w i)"
  by (auto simp: pub_finish_def bind_outcome_Value_iff stream_commit_def answer_try_done close_done_buf
      split: option.splits if_splits)

lemma pub_round_buf: "pub_round b pick ctx w = Value r \<Longrightarrow> ch_buf (ww_done (result_world r) i) = ch_buf (ww_done w i)"
  by (auto simp: pub_round_def Let_def dest!: pub_finish_buf [of _ _ _ _ i] split: prod.splits peek_result.splits sum.splits)

lemma writer_step_done_empty:
  "writer_step b wc s t \<Longrightarrow> ch_buf (ww_done (ws_world s) i) = [] \<Longrightarrow> ch_buf (ww_done (ws_world t) i) = []"
proof (induction rule: writer_step.induct)
  case (loop_top s ov ov' w)
  then show ?case by (auto simp: pub_overflow_def Let_def split: prod.splits if_splits)
qed (auto simp: writer_Publish_cases TrySend_cases bind_outcome_Value_iff make_done_def make_try_def stream_put_def
    dest: pub_round_buf [of _ _ _ _ _ i] split: if_splits)
lemma pub_round_matches:
  assumes "pub_round b pick ctx w = Value r" "log_matches w"
  shows "log_matches (result_world r)"
proof (cases "queue_peek pick ctx (ww_stream w)")
  case (Pair res q)
  show ?thesis
  proof (cases res)
    case (Peeked m)
    then show ?thesis
      using assms Pair
      by (auto simp: pub_round_def do_call_def Let_def log_matches_def accepted_def on_wire_any_heap [of m "ww_heap w"]
          dest!: pub_finish_frame split: sum.splits)
  qed (use assms Pair in \<open>auto simp: pub_round_def log_matches_def\<close>)
qed

lemma writer_step_matches: "writer_step b wc s t \<Longrightarrow> log_matches (ws_world s) \<Longrightarrow> log_matches (ws_world t)"
proof (induction rule: writer_step.induct)
  case (client_publish ms s r w)
  then show ?case
    by (auto simp: writer_Publish_cases bind_outcome_Value_iff log_matches_def make_done_def stream_put_def
        split: prod.splits if_splits)
next
  case (client_try ms s r w)
  then show ?case
    by (auto simp: TrySend_cases bind_outcome_Value_iff log_matches_def make_try_def stream_put_def
        split: prod.splits if_splits)
next
  case (loop_top s ov ov' w)
  then show ?case
    by (auto simp: pub_overflow_def log_matches_def accepted_def Let_def split: prod.splits if_splits)
qed (auto simp: log_matches_def dest: accepted_pub_setup pub_round_matches)

section \<open>Runs used as examples\<close>

text \<open>A broker that accepts every call, and one that refuses every publishing.\<close>

definition ok_broker :: broker where
  "ok_broker h c = Inr ''''"

definition refusing_broker :: broker where
  "refusing_broker h c = (case c of Publish _ _ _ _ _ \<Rightarrow> Inl (Err ''closed'') | _ \<Rightarrow> Inr '''')"

definition demo_world :: writer_world where
  "demo_world = \<lparr>ww_heap = \<lparr>hp_table = (\<lambda>_. []), hp_next = 0\<rparr>, ww_stream = new_queue,
     ww_done = (\<lambda>_. chan_make 0), ww_try = (\<lambda>_. chan_make 0), ww_next = 0, ww_history = [], ww_log = []\<rparr>"

definition demo_message :: message where
  "demo_message = Message_String ''hello'' (Message_Key ''q'' (Prepare newWriter (LocalTime 7)))"

definition put_demo :: "writer_world \<Rightarrow> writer_world" where
  "put_demo w = stream_put (done_qmsg demo_message (msg_msg demo_message) (ww_next w)) (make_done w)"

definition try_demo :: "writer_world \<Rightarrow> writer_world" where
  "try_demo w = stream_put (try_qmsg demo_message (msg_msg demo_message) (ww_next w)) (make_try w)"

definition demo_start :: writer_sys where
  "demo_start = \<lparr>ws_world = demo_world, ws_pc = Offline\<rparr>"

definition demo_queued :: writer_sys where
  "demo_queued = \<lparr>ws_world = try_demo (put_demo demo_world), ws_pc = AtTop False\<rparr>"

lemma demo_starts [simp]: "writer_start demo_start"
  by (simp add: writer_start_def demo_start_def demo_world_def)

lemma demo_put:
  "writer_Publish newWriter demo_message (ws_world demo_start) = Value ((0, None), put_demo demo_world)"
  by (simp add: writer_Publish_cases newWriter_def demo_start_def put_demo_def make_done_def demo_world_def)

lemma demo_run_after_put:
  "rtranclp (writer_step b newWriter) (demo_start\<lparr>ws_world := put_demo demo_world\<rparr>) demo_queued"
proof -
  let ?a = "demo_start\<lparr>ws_world := put_demo demo_world\<rparr>"
  let ?b = "?a\<lparr>ws_world := try_demo (put_demo demo_world)\<rparr>"
  have "writer_step b newWriter ?a ?b"
    by (rule writer_step.client_try [where ms = demo_message and r = "Some (ww_next (put_demo demo_world))"])
      (simp add: TrySend_cases newWriter_def try_demo_def make_try_def)
  moreover have "writer_step b newWriter ?b demo_queued"
    using writer_step.connected [of ?b b newWriter "[]"]
    by (simp add: pub_setup_def guarded_def pure_amqp_def newWriter_def demo_queued_def demo_start_def
        try_demo_def put_demo_def make_done_def make_try_def stream_put_def demo_world_def)
  ultimately show ?thesis using run_end by (simp only: run_step)
qed

lemma demo_run: "rtranclp (writer_step b newWriter) demo_start demo_queued"
  using writer_step.client_publish [OF demo_put] demo_run_after_put by (rule converse_rtranclp_into_rtranclp)

lemma demo_items: "queue_items (ww_stream (ws_world demo_queued)) =
    [done_qmsg demo_message (msg_msg demo_message) 0, try_qmsg demo_message (msg_msg demo_message) 1]"
  by (simp add: demo_queued_def try_demo_def put_demo_def make_try_def make_done_def stream_put_def demo_world_def)

text \<open>With a broker that accepts everything, two steps of the loop settle the front message.\<close>

lemma accepted_round_settles:
  assumes "\<And>h c. \<exists>n. b h c = Inr n" and "pub_round b pick ctx w = Value (PubReturn e w')" and "writer_inv w"
  shows "queue_items (ww_stream w) = []"
  using assms(3)
proof (cases rule: pub_round_cases [where b = b and pick = pick and ctx = ctx])
  case (failed m ms e' w'')
  have "fst (queue_peek pick ctx (ww_stream w)) = Peeked m"
    using failed(1) writer_invD(1) [OF assms(3)] by (simp add: mq.peek_ignores_context_when_full)
  then obtain q where q: "queue_peek pick ctx (ww_stream w) = (Peeked m, q)"
    by (cases "queue_peek pick ctx (ww_stream w)") auto
  obtain n where "b (ww_history w) (Publish (m_Exchange m) (m_Key m) False False (wire (ww_heap w) (m_Msg m))) = Inr n"
    using assms(1) by blast
  with q assms(2) show ?thesis
    by (auto simp: pub_round_def do_call_def pub_finish_def bind_outcome_Value_iff Let_def)
qed (use assms(2) in auto)

lemma publisher_round_step:
  assumes inv: "writer_inv (ws_world s)" and ok: "\<And>h c. \<exists>n. b h c = Inr n"
    and pc: "ws_pc s = AtTop ov" and q: "queue_items (ww_stream (ws_world s)) = m # ms"
  shows "\<exists>s' ov'. rtranclp (writer_step b wc) s s' \<and> ws_pc s' = AtTop ov' \<and>
    queue_items (ww_stream (ws_world s')) = ms \<and> ww_log (ws_world s') = ww_log (ws_world s) @ [LAttempt m None]"
proof -
  obtain ov' w where ov: "pub_overflow wc ov (ws_world s) = (ov', w)" by (meson surj_pair)
  let ?t = "s\<lparr>ws_world := w, ws_pc := AtPeek ov'\<rparr>"
  from pc ov have one: "writer_step b wc s ?t" by (rule writer_step.loop_top)
  from pub_overflow_inv [OF inv ov] have w: "writer_inv w" "ww_log w = ww_log (ws_world s)"
    "queue_items (ww_stream w) = m # ms" using q by auto
  from w(1) show ?thesis
  proof (cases rule: pub_round_cases [where b = b and pick = False and ctx = None])
    case (published m' ms' w')
    then have "writer_step b wc ?t (?t\<lparr>ws_world := w', ws_pc := AtTop ov'\<rparr>)"
      by (intro writer_step.loop_published [where pick = False and ctx = None]) auto
    then have "rtranclp (writer_step b wc) s (?t\<lparr>ws_world := w', ws_pc := AtTop ov'\<rparr>)"
      using one run_end by (simp only: run_step)
    then show ?thesis using published w by (intro exI conjI) auto
  qed (use w accepted_round_settles [OF ok _ w(1), where pick = False and ctx = None] in auto)
qed

section \<open>Properties\<close>

lemma known_distinct: "writer_inv w \<Longrightarrow> distinct (known w)"
  using writer_invD(3) distinct_map by blast

text \<open>
  C1: Messages are settled in the order they were put, each exactly once, and none is lost:
  whatever clients, broker and connection do, what was put so far is what was settled followed
  by what is still queued, and no message occurs twice in it. A message is settled by a
  publishing the broker accepted or, for \<open>TrySend\<close>, by its single attempt.
\<close>

theorem publisher_fifo:
  assumes "rtranclp (writer_step b wc) s0 s" and "writer_start s0"
  shows "puts (ww_log (ws_world s)) = settled (ww_log (ws_world s)) @ queue_items (ww_stream (ws_world s)) \<and>
    distinct (puts (ww_log (ws_world s)))"
proof -
  have inv: "writer_inv (ws_world s)" using assms by (rule reachable_writer_inv)
  then have "distinct (known (ws_world s))" by (rule known_distinct)
  with writer_invD(2) [OF inv] show ?thesis by (metis known_def)
qed

theorem publisher_fifo_witness:
  "puts (ww_log (ws_world demo_queued)) = settled (ww_log (ws_world demo_queued)) @
     [done_qmsg demo_message (msg_msg demo_message) 0, try_qmsg demo_message (msg_msg demo_message) 1]"
  using publisher_fifo [OF demo_run demo_starts] by (simp add: demo_items)

lemma puts_iff: "m \<in> set (puts l) \<longleftrightarrow> LPut m \<in> set l"
  by (induction l rule: puts.induct) auto

lemma settled_attempt:
  "m \<in> set (settled l) \<Longrightarrow> \<exists>err. LAttempt m err \<in> set l \<and> (err = None \<or> m_Try m \<noteq> None)"
  by (induction l rule: settled.induct) (auto split: if_splits)

lemma attempt_settled: "LAttempt m None \<in> set l \<Longrightarrow> m \<in> set (settled l)"
  by (induction l rule: settled.induct) auto

lemma known_put: "writer_inv w \<Longrightarrow> LPut m \<in> set (ww_log w) \<Longrightarrow> m \<in> set (known w)"
  using writer_invD(2) puts_iff by metis

lemma closed_iff_attempted:
  assumes inv: "writer_inv w" and put: "LPut m \<in> set (ww_log w)" and d: "m_Done m = Some d"
  shows "ch_closed (ww_done w d) \<longleftrightarrow> LAttempt m None \<in> set (ww_log w)"
proof -
  have known: "m \<in> set (known w)" using inv put by (rule known_put)
  then have "m_Try m = None" using writer_invD(4) [OF inv] d by (auto simp: one_channel_def)
  then have "m \<in> set (settled (ww_log w)) \<longleftrightarrow> LAttempt m None \<in> set (ww_log w)"
    using settled_attempt attempt_settled by fastforce
  moreover have "m \<in> set (settled (ww_log w)) \<Longrightarrow> ch_closed (ww_done w d)"
    using writer_invD(7) [OF inv] d by blast
  moreover have "m \<in> set (queue_items (ww_stream w)) \<Longrightarrow> \<not> ch_closed (ww_done w d)"
    using writer_invD(6) [OF inv, of m] d by (simp add: answer_open_def)
  ultimately show ?thesis using known by (auto simp: known_def)
qed

text \<open>A channel that was given out and closed stays closed.\<close>

definition done_kept :: "writer_world \<Rightarrow> writer_world \<Rightarrow> bool" where
  "done_kept w w' \<longleftrightarrow> ww_next w \<le> ww_next w' \<and>
     (\<forall>d < ww_next w. ch_closed (ww_done w d) \<longrightarrow> ch_closed (ww_done w' d))"

lemma done_kept_refl [simp]: "done_kept w w"
  by (simp add: done_kept_def)

lemma done_kept_trans: "done_kept w w' \<Longrightarrow> done_kept w' w'' \<Longrightarrow> done_kept w w''"
  by (simp add: done_kept_def)

lemma answer_try_kept: "answer_try t err w = Value w' \<Longrightarrow> ww_next w' = ww_next w \<and> ww_done w' = ww_done w"
  by (auto simp: answer_try_def bind_outcome_Value_iff stream_commit_def)

lemma close_done_kept: "close_done d w = Value w' \<Longrightarrow> done_kept w w'"
  by (auto simp: close_done_def chan_close_def bind_outcome_Value_iff done_kept_def split: if_splits)

lemma stream_commit_kept [simp]: "done_kept w (stream_commit w') = done_kept w w'"
  by (simp add: done_kept_def stream_commit_def)

lemma pub_finish_kept: "pub_finish m err w = Value r \<Longrightarrow> done_kept w (result_world r)"
  by (auto simp: pub_finish_def bind_outcome_Value_iff done_kept_def stream_commit_def
      split: option.splits if_splits dest!: answer_try_kept close_done_kept)

lemma pub_round_kept: "pub_round b pick ctx w = Value r \<Longrightarrow> done_kept w (result_world r)"
  by (auto simp: pub_round_def Let_def done_kept_def split: prod.splits peek_result.splits dest!: pub_finish_kept)

lemma writer_Publish_kept: "writer_Publish wc ms w = Value (r, w') \<Longrightarrow> done_kept w w'"
  by (auto simp: writer_Publish_cases bind_outcome_Value_iff make_done_def stream_put_def done_kept_def split: if_splits)

lemma TrySend_kept: "TrySend wc ms w = Value (r, w') \<Longrightarrow> done_kept w w'"
  by (auto simp: TrySend_cases bind_outcome_Value_iff make_try_def stream_put_def done_kept_def split: if_splits)

lemma pub_overflow_kept: "pub_overflow wc ov w = (ov', w') \<Longrightarrow> done_kept w w'"
  by (auto simp: pub_overflow_def Let_def done_kept_def split: prod.splits if_splits)

lemma writer_step_kept: "writer_step b wc s t \<Longrightarrow> done_kept (ws_world s) (ws_world t)"
  by (induction rule: writer_step.induct)
    (auto dest: pub_round_kept writer_Publish_kept TrySend_kept pub_overflow_kept simp: done_kept_def)

lemma run_kept: "rtranclp (writer_step b wc) s t \<Longrightarrow> done_kept (ws_world s) (ws_world t)"
  by (induction rule: rtranclp_induct) (auto intro: done_kept_trans writer_step_kept)

lemma run_log:
  assumes "rtranclp (writer_step b wc) s t" "writer_inv (ws_world s)"
  shows "writer_inv (ws_world t) \<and> (\<exists>l. ww_log (ws_world t) = ww_log (ws_world s) @ l)"
  using assms
proof (induction rule: rtranclp_induct)
  case (step t u)
  then show ?case using writer_step_inv [OF step(2)] writer_step_log [OF step(2)] by auto
qed simp

lemma same_done_channel:
  assumes "writer_inv w" "m \<in> set (known w)" "m' \<in> set (known w)" "m_Done m = Some d" "m_Done m' = Some d"
  shows "m' = m"
proof -
  have "answer_id m = answer_id m'" using assms writer_invD(4) by (simp add: done_id)
  with assms(2,3) writer_invD(3) [OF assms(1)] show ?thesis by (metis inj_onD distinct_map)
qed

text \<open>
  C2: \<open>Publish\<close> returns an error exactly when a middleware rejects the message. The channel it
  returns is closed, at any time after the call, exactly when it returned that error or a message
  that answers on this channel, with the exchange and routing key of the call, was given to
  \<open>ch.Publish\<close> and that returned nil. So \<open>PublishWait\<close> returns nil for no message that was not
  published.
\<close>

theorem done_iff_published:
  assumes "rtranclp (writer_step b wc) s0 s" and "writer_start s0"
    and "writer_Publish wc ms (ws_world s) = Value ((d, e), w)"
    and "rtranclp (writer_step b wc) (s\<lparr>ws_world := w\<rparr>) t"
  shows "(e \<noteq> None \<longleftrightarrow> (\<exists>p hp. processMessage (wc_middleware wc) (msg_msg ms) (ww_heap (ws_world s)) = Value (False, p, hp))) \<and>
    (ch_closed (ww_done (ws_world t) d) \<longleftrightarrow>
      e \<noteq> None \<or> (\<exists>m. LAttempt m None \<in> set (ww_log (ws_world t)) \<and> m_Done m = Some d \<and>
        m_Exchange m = msg_exchange ms \<and> m_Key m = msg_key ms))" (is "?rejected \<and> ?closed")
proof
  show ?rejected
    using assms(3) by (auto simp: writer_Publish_cases bind_outcome_Value_iff split: if_splits)
  have inv: "writer_inv (ws_world s)" using assms(1,2) by (rule reachable_writer_inv)
  then have "writer_inv w" using assms(3) by (rule writer_Publish_inv [rotated])
  with run_log [OF assms(4)] obtain l where inv': "writer_inv (ws_world t)"
    and log: "ww_log (ws_world t) = ww_log w @ l" by auto
  from assms(3) have d: "d < ww_next w"
    by (auto simp: writer_Publish_cases bind_outcome_Value_iff make_done_def stream_put_def split: if_splits)
  show ?closed
  proof (cases e)
    case (Some e')
    with assms(3) have "ch_closed (ww_done w d)"
      by (auto simp: writer_Publish_cases bind_outcome_Value_iff make_done_def stream_put_def split: if_splits)
    with run_kept [OF assms(4)] d Some show ?closed by (simp add: done_kept_def)
  next
    case None
    with assms(3) have "\<exists>p. LPut (done_qmsg ms p d) \<in> set (ww_log w)"
      by (auto simp: writer_Publish_cases bind_outcome_Value_iff make_done_def stream_put_def split: if_splits)
    then obtain p where "LPut (done_qmsg ms p d) \<in> set (ww_log w)" ..
    with log have put: "LPut (done_qmsg ms p d) \<in> set (ww_log (ws_world t))" by simp
    have qd: "m_Done (done_qmsg ms p d) = Some d" by (simp add: done_qmsg_def)
    have "m = done_qmsg ms p d" if "LAttempt m None \<in> set (ww_log (ws_world t))" "m_Done m = Some d" for m
      using same_done_channel [OF inv' known_put [OF inv' put] known_settled [OF attempt_settled [OF that(1)]] qd that(2)] .
    then have "(\<exists>m. LAttempt m None \<in> set (ww_log (ws_world t)) \<and> m_Done m = Some d \<and>
        m_Exchange m = msg_exchange ms \<and> m_Key m = msg_key ms) \<longleftrightarrow>
      LAttempt (done_qmsg ms p d) None \<in> set (ww_log (ws_world t))"
      using qd by (metis done_qmsg_fields)
    with closed_iff_attempted [OF inv' put qd] None show ?closed by simp
  qed
qed

theorem done_iff_published_witness:
  "\<exists>t. rtranclp (writer_step ok_broker newWriter) demo_start t \<and> ch_closed (ww_done (ws_world t) 0)"
proof -
  obtain t where t: "rtranclp (writer_step ok_broker newWriter) demo_queued t"
    "ww_log (ws_world t) = ww_log (ws_world demo_queued) @ [LAttempt (done_qmsg demo_message (msg_msg demo_message) 0) None]"
    using publisher_round_step [OF reachable_writer_inv [OF demo_run demo_starts] _ _ demo_items, of ok_broker False newWriter]
    by (auto simp: ok_broker_def demo_queued_def)
  have put: "writer_Publish newWriter demo_message (ws_world demo_start) = Value ((0, None), put_demo demo_world)"
    by (rule demo_put)
  have run: "rtranclp (writer_step ok_broker newWriter) (demo_start\<lparr>ws_world := put_demo demo_world\<rparr>) t"
    using demo_run_after_put t(1) by (rule rtranclp_trans)
  have "rtranclp (writer_step ok_broker newWriter) demo_start t"
    using demo_run t(1) by (rule rtranclp_trans)
  with done_iff_published [OF rtranclp.rtrancl_refl demo_starts put run] t(2) show ?thesis
    by (intro exI [of _ t]) (auto simp: done_qmsg_def)
qed

text \<open>The results of the attempts to publish a message, in order.\<close>

definition attempts :: "qmsg \<Rightarrow> log_event list \<Rightarrow> go_error option list" where
  "attempts m l = concat (map (\<lambda>e. case e of LAttempt m' err \<Rightarrow> if m' = m then [err] else [] | _ \<Rightarrow> []) l)"

lemma attempts_settled: "m_Try m \<noteq> None \<Longrightarrow> length (attempts m l) = count_list (settled l) m"
  by (induction l rule: settled.induct) (auto simp: attempts_def)

lemma attempts_mem: "err \<in> set (attempts m l) \<longleftrightarrow> LAttempt m err \<in> set l"
  by (induction l) (auto simp: attempts_def split: log_event.splits)

lemma count_distinct: "distinct xs \<Longrightarrow> count_list xs x = (if x \<in> set xs then 1 else 0)"
  by (induction xs) auto

text \<open>
  C3: A message of \<open>TrySend\<close> is attempted at most once. While it is queued there was no attempt
  and there is nothing to read from its channel; after its attempt it is gone from the queue, its
  channel is closed, and what was received from the channel so far together with what is still in
  it is that attempt's error (nil included) exactly once, followed by nothing but the zero values
  of a closed channel.
\<close>

theorem try_attempted_once:
  assumes "rtranclp (writer_step b wc) s0 s" and "writer_start s0"
    and "LPut m \<in> set (ww_log (ws_world s))" and "m_Try m = Some t"
  shows "(attempts m (ww_log (ws_world s)) = [] \<and> m \<in> set (queue_items (ww_stream (ws_world s))) \<and>
            try_send_results (ws_world s) t None = [])
       \<or> (\<exists>err. attempts m (ww_log (ws_world s)) = [err] \<and> m \<notin> set (queue_items (ww_stream (ws_world s))) \<and>
            ch_closed (ww_try (ws_world s) t) \<and>
            (\<exists>n. gots t (ww_log (ws_world s)) @ map Some (ch_buf (ww_try (ws_world s) t)) = Some err # replicate n None))"
proof -
  let ?w = "ws_world s" and ?q = "queue_items (ww_stream (ws_world s))"
  have inv: "writer_inv ?w" using assms(1,2) by (rule reachable_writer_inv)
  have "m \<in> set (known ?w)" using inv assms(3) by (rule known_put)
  then have either: "(m \<in> set (settled (ww_log ?w))) \<noteq> (m \<in> set ?q)"
    using known_distinct [OF inv] by (auto simp: known_def)
  have len: "length (attempts m (ww_log ?w)) = (if m \<in> set (settled (ww_log ?w)) then 1 else 0)"
    using attempts_settled [of m] known_distinct [OF inv] assms(4) by (simp add: count_distinct known_def)
  show ?thesis
  proof (cases "m \<in> set ?q")
    case True
    then have "answer_open ?w m" by (rule writer_invD(6) [OF inv])
    with True either len assms(4) show ?thesis
      by (simp add: try_send_results_def chan_recv_def answer_open_def)
  next
    case False
    with either len obtain err where err: "attempts m (ww_log ?w) = [err]"
      by (cases "attempts m (ww_log ?w)") auto
    then have "LAttempt m err \<in> set (ww_log ?w)" by (simp flip: attempts_mem)
    with inv assms(4) have "answered err t ?w" by (auto intro: writer_invD(9))
    with err False show ?thesis unfolding answered_def by blast
  qed
qed

theorem try_attempted_once_witness:
  "try_send_results (ws_world demo_queued) 1 None = []"
  using try_attempted_once [OF demo_run demo_starts, of "try_qmsg demo_message (msg_msg demo_message) 1" 1]
  by (simp add: demo_queued_def try_demo_def put_demo_def make_try_def make_done_def stream_put_def
      demo_world_def done_qmsg_def try_qmsg_def)

text \<open>
  C4: No state the writers and the publisher can reach makes the code panic or block for good:
  no channel is closed twice, nothing is sent on a closed or full channel. A client panics only
  where one of its middlewares does.
\<close>

theorem publisher_never_panics:
  assumes "rtranclp (writer_step b wc) s0 s" and "writer_start s0"
  shows "(\<exists>r. pub_round b pick ctx (ws_world s) = Value r) \<and>
    (processMessage (wc_middleware wc) (msg_msg ms) (ww_heap (ws_world s)) = Value x \<longrightarrow>
      (\<exists>r. writer_Publish wc ms (ws_world s) = Value r) \<and> (\<exists>r. TrySend wc ms (ws_world s) = Value r))"
proof -
  have inv: "writer_inv (ws_world s)" using assms by (rule reachable_writer_inv)
  have "\<exists>r. pub_round b pick ctx (ws_world s) = Value r"
    by (cases rule: pub_round_cases [OF inv, of b pick ctx]) auto
  then show ?thesis by (simp add: writer_Publish_cases TrySend_cases split: prod.split)
qed

theorem publisher_never_panics_witness:
  "(\<exists>r. pub_round refusing_broker False None (ws_world demo_queued) = Value r) \<and>
   (\<exists>r. TrySend newWriter demo_message (ws_world demo_queued) = Value r)"
  using publisher_never_panics [OF demo_run demo_starts, where b = refusing_broker and pick = False and ctx = None and ms = demo_message]
  by (simp add: newWriter_def)

lemma reachable_log_matches:
  assumes "rtranclp (writer_step b wc) s0 s" and "writer_start s0"
  shows "log_matches (ws_world s)"
  using assms(1)
proof (rule rtranclp_invariant)
  show "log_matches (ws_world s0)"
    using assms(2) by (simp add: writer_start_def log_matches_def accepted_def)
qed (rule writer_step_matches)

text \<open>
  C5: What the broker was given are the messages of the clients, in order. Its accepted
  publishings (those \<open>ch.Publish\<close> answered with nil), followed by what is still queued, are a
  subsequence of the messages put so far, and all of them when none came from \<open>TrySend\<close>: then
  each message put was published once or is still queued, with the exchange, routing key, body
  and other fields its client gave it (the header map apart, which the clients can still change).
\<close>

theorem broker_gets_messages_in_order:
  assumes "rtranclp (writer_step b wc) s0 s" and "writer_start s0"
  shows "subseq (accepted (ww_history (ws_world s)) @ map on_wire (queue_items (ww_stream (ws_world s))))
      (map on_wire (puts (ww_log (ws_world s)))) \<and>
    ((\<forall>m \<in> set (puts (ww_log (ws_world s))). m_Try m = None) \<longrightarrow>
      accepted (ww_history (ws_world s)) @ map on_wire (queue_items (ww_stream (ws_world s))) =
        map on_wire (puts (ww_log (ws_world s))))"
proof -
  let ?w = "ws_world s"
  have acc: "accepted (ww_history ?w) = map on_wire (published (ww_log ?w))"
    using reachable_log_matches [OF assms] by (simp add: log_matches_def)
  have puts: "puts (ww_log ?w) = settled (ww_log ?w) @ queue_items (ww_stream ?w)"
    using writer_invD(2) [OF reachable_writer_inv [OF assms]] by (simp add: known_def)
  show ?thesis
    using published_settled [of "ww_log ?w"] published_eq_settled [of "ww_log ?w"]
    by (auto simp: acc puts list_all_iff intro: list_emb_append_mono subseq_map)
qed

theorem broker_gets_messages_in_order_witness:
  "\<exists>t. rtranclp (writer_step ok_broker newWriter) demo_start t \<and>
     accepted (ww_history (ws_world t)) = [on_wire (done_qmsg demo_message (msg_msg demo_message) 0)]"
proof -
  let ?a = "demo_start\<lparr>ws_world := put_demo demo_world\<rparr>"
  let ?b = "?a\<lparr>ws_pc := AtTop False\<rparr>"
  have "writer_step ok_broker newWriter demo_start ?a" using writer_step.client_publish [OF demo_put] .
  moreover have "writer_step ok_broker newWriter ?a ?b"
    using writer_step.connected [of ?a ok_broker newWriter "[]"]
    by (simp add: pub_setup_def guarded_def pure_amqp_def newWriter_def demo_start_def put_demo_def
        make_done_def stream_put_def demo_world_def)
  ultimately have run: "rtranclp (writer_step ok_broker newWriter) demo_start ?b"
    using run_end by (simp only: run_step)
  have items: "queue_items (ww_stream (ws_world ?b)) = [done_qmsg demo_message (msg_msg demo_message) 0]"
    and log: "ww_log (ws_world ?b) = [LPut (done_qmsg demo_message (msg_msg demo_message) 0)]"
    by (simp_all add: put_demo_def make_done_def stream_put_def demo_world_def)
  obtain t where t: "rtranclp (writer_step ok_broker newWriter) ?b t"
    "queue_items (ww_stream (ws_world t)) = []" "ww_log (ws_world t) = ww_log (ws_world ?b) @ [LAttempt (done_qmsg demo_message (msg_msg demo_message) 0) None]"
    using publisher_round_step [OF reachable_writer_inv [OF run demo_starts] _ _ items, of ok_broker False newWriter]
    by (auto simp: ok_broker_def)
  have "rtranclp (writer_step ok_broker newWriter) demo_start t" using run t(1) by (rule rtranclp_trans)
  with broker_gets_messages_in_order [OF this demo_starts] t(2,3) log show ?thesis
    by (intro exI [of _ t]) (auto simp: done_qmsg_def)
qed

section \<open>Progress\<close>

text \<open>
  C6: A connected publisher whose broker accepts what it is sent empties its queue: in finitely
  many of its own steps every queued message is published, in order, and the queue is empty.
\<close>

theorem publisher_drains:
  assumes "rtranclp (writer_step b wc) s0 s" and "writer_start s0"
    and "\<forall>h c. \<exists>n. b h c = Inr n" and "ws_pc s = AtTop ov"
  shows "\<exists>s' ov'. rtranclp (writer_step b wc) s s' \<and> ws_pc s' = AtTop ov' \<and>
    queue_items (ww_stream (ws_world s')) = [] \<and>
    ww_log (ws_world s') = ww_log (ws_world s) @
      map (\<lambda>m. LAttempt m None) (queue_items (ww_stream (ws_world s)))"
  using assms(1,4)
proof (induction "queue_items (ww_stream (ws_world s))" arbitrary: s ov)
  case Nil
  then show ?case by (intro exI [of _ s] exI [of _ ov]) simp
next
  case (Cons m ms)
  have "writer_inv (ws_world s)" using Cons.prems(1) assms(2) by (rule reachable_writer_inv)
  from publisher_round_step [OF this _ Cons.prems(2) Cons.hyps(2) [symmetric]] assms(3)
  obtain t ov' where t: "rtranclp (writer_step b wc) s t" "ws_pc t = AtTop ov'"
    "queue_items (ww_stream (ws_world t)) = ms" "ww_log (ws_world t) = ww_log (ws_world s) @ [LAttempt m None]"
    by blast
  from Cons.hyps(1) [OF t(3) [symmetric] rtranclp_trans [OF Cons.prems(1) t(1)] t(2)]
  obtain u ov'' where "rtranclp (writer_step b wc) t u" "ws_pc u = AtTop ov''"
    "queue_items (ww_stream (ws_world u)) = []"
    "ww_log (ws_world u) = ww_log (ws_world t) @ map (\<lambda>m. LAttempt m None) ms"
    using t(3) by auto
  with t Cons.hyps(2) show ?case
    by (intro exI [of _ u] exI [of _ ov'']) (auto dest: rtranclp_trans simp flip: Cons.hyps(2))
qed

theorem publisher_drains_witness:
  "\<exists>s'. rtranclp (writer_step ok_broker newWriter) demo_queued s' \<and>
     queue_items (ww_stream (ws_world s')) = []"
  using publisher_drains [OF demo_run demo_starts, of ok_broker False]
  by (auto simp: ok_broker_def demo_queued_def)

section \<open>Failed publishings and rejected messages\<close>



end
