(* ===== verification/Requeuer.thy ===== *)
theory Requeuer
  imports Amqp_Model Writer
begin

text \<open>
  \<open>requeuer.go\<close>: a queue without consumers whose messages expire after a delay and are then
  dead-lettered to the target queue. The configuration, what a requeued copy of a delivery
  looks like, and the goroutines calling \<open>Requeue\<close> together with the loop of \<open>ChannelReady\<close>
  as a step relation. The contract a sink relies on is the locale \<open>requeuer\<close>.
\<close>

section \<open>Configuration and the copy of a delivery\<close>

record requeue_config =
  rc_queueName :: string
  rc_targetQueue :: string
  rc_timeout :: "64 word"

definition second :: "64 word" where
  "second = 1000000000"

definition newRequeue :: "string \<Rightarrow> requeue_config" where
  "newRequeue target = \<lparr>rc_queueName = target @ ''/requeue'', rc_targetQueue = target, rc_timeout = 10 * second\<rparr>"

definition requeue_Timeout :: "64 word \<Rightarrow> requeue_config \<Rightarrow> requeue_config" where
  "requeue_Timeout tm rq = rq\<lparr>rc_timeout := tm\<rparr>"

definition requeue_Queue :: "string \<Rightarrow> requeue_config \<Rightarrow> requeue_config" where
  "requeue_Queue name rq = rq\<lparr>rc_queueName := name\<rparr>"

definition LastErrorHeader :: string where
  "LastErrorHeader = ''x-fluent-amqp-last-message-error''"

text \<open>
  The publishing \<open>Requeue\<close> builds. The struct literal names ten fields; the delivery mode is
  not among them and keeps its zero value.
\<close>

definition requeue_publishing :: "requeue_config \<Rightarrow> 'h delivery \<Rightarrow> 'h publishing" where
  "requeue_publishing rc original = (zero_publishing (d_Headers original))
     \<lparr>p_CorrelationId := d_CorrelationId original, p_ReplyTo := d_ReplyTo original,
      p_Body := d_Body original, p_Expiration := format_int (duration_ms (rc_timeout rc)),
      p_ContentType := d_ContentType original, p_ContentEncoding := d_ContentEncoding original,
      p_MessageId := d_MessageId original, p_Timestamp := d_Timestamp original, p_Type := d_Type original\<rparr>"

text \<open>What \<open>RequeueWithError\<close> does to the delivery before it calls \<open>Requeue\<close>.\<close>

definition with_last_error :: "go_error option \<Rightarrow> msg_in \<Rightarrow> msg_in" where
  "with_last_error err original = (case err of
     None \<Rightarrow> original
   | Some e \<Rightarrow> original\<lparr>d_Headers := Some (map_put (d_Headers original) LastErrorHeader (VString (error_text e)))\<rparr>)"

lemma requeue_publishing_fields [simp]:
  "p_Headers (requeue_publishing rc d) = d_Headers d" "p_Body (requeue_publishing rc d) = d_Body d"
  "p_MessageId (requeue_publishing rc d) = d_MessageId d" "p_ReplyTo (requeue_publishing rc d) = d_ReplyTo d"
  "p_CorrelationId (requeue_publishing rc d) = d_CorrelationId d" "p_Type (requeue_publishing rc d) = d_Type d"
  "p_ContentType (requeue_publishing rc d) = d_ContentType d" "p_Timestamp (requeue_publishing rc d) = d_Timestamp d"
  "p_ContentEncoding (requeue_publishing rc d) = d_ContentEncoding d"
  "p_DeliveryMode (requeue_publishing rc d) = 0"
  "p_Expiration (requeue_publishing rc d) = format_int (duration_ms (rc_timeout rc))"
  by (simp_all add: requeue_publishing_def zero_publishing_def)

lemma with_last_error_headers:
  "map_get (d_Headers (with_last_error (Some e) d)) k =
     (if k = LastErrorHeader then Some (VString (error_text e)) else map_get (d_Headers d) k)"
  by (simp add: with_last_error_def)

lemma with_last_error_frame [simp]:
  "d_Body (with_last_error err d) = d_Body d" "d_MessageId (with_last_error err d) = d_MessageId d"
  "d_RoutingKey (with_last_error err d) = d_RoutingKey d" "d_ReplyTo (with_last_error err d) = d_ReplyTo d"
  "d_CorrelationId (with_last_error err d) = d_CorrelationId d" "d_DeliveryTag (with_last_error err d) = d_DeliveryTag d"
  by (simp_all add: with_last_error_def split: option.split)

text \<open>
  The same where the header map is shared: a delivery and the publishing made from it hold the
  address of one map. \<open>read_delivery\<close> is the delivery with the contents its map has.
\<close>

type_synonym shared_in = "nat option delivery"

definition read_delivery :: "heap \<Rightarrow> shared_in \<Rightarrow> msg_in" where
  "read_delivery hp d = \<lparr>d_Headers = map_option (hp_table hp) (d_Headers d), d_ContentType = d_ContentType d,
     d_ContentEncoding = d_ContentEncoding d, d_DeliveryMode = d_DeliveryMode d,
     d_CorrelationId = d_CorrelationId d, d_ReplyTo = d_ReplyTo d, d_Expiration = d_Expiration d,
     d_MessageId = d_MessageId d, d_Timestamp = d_Timestamp d, d_Type = d_Type d,
     d_DeliveryTag = d_DeliveryTag d, d_RoutingKey = d_RoutingKey d, d_Body = d_Body d\<rparr>"

definition note_last_error :: "go_error option \<Rightarrow> shared_in \<times> heap \<Rightarrow> shared_in \<times> heap" where
  "note_last_error err = (\<lambda>(d, hp). (case err of
     None \<Rightarrow> (d, hp)
   | Some e \<Rightarrow> (case d_Headers d of
        None \<Rightarrow> (d\<lparr>d_Headers := Some (hp_next hp)\<rparr>,
          hp\<lparr>hp_table := (hp_table hp)(hp_next hp := map_put None LastErrorHeader (VString (error_text e))),
             hp_next := Suc (hp_next hp)\<rparr>)
      | Some a \<Rightarrow> (d, hp\<lparr>hp_table :=
          (hp_table hp)(a := map_put (Some (hp_table hp a)) LastErrorHeader (VString (error_text e)))\<rparr>))))"

lemma read_note_last_error:
  "note_last_error err (d, hp) = (d', hp') \<Longrightarrow> read_delivery hp' d' = with_last_error err (read_delivery hp d)"
  by (auto simp: note_last_error_def with_last_error_def read_delivery_def split: option.splits)

lemma wire_requeue_publishing: "wire hp (requeue_publishing rc d) = requeue_publishing rc (read_delivery hp d)"
  by (simp add: wire_def requeue_publishing_def zero_publishing_def read_delivery_def)

section \<open>ChannelReady\<close>

definition requeue_args :: "requeue_config \<Rightarrow> table" where
  "requeue_args rc = [(''x-dead-letter-routing-key'', VString (rc_targetQueue rc)), (''x-dead-letter-exchange'', VString '''')]"

definition requeue_setup :: "broker \<Rightarrow> requeue_config \<Rightarrow> string amqp" where
  "requeue_setup b rc = do_call b (QueueDeclare (rc_queueName rc) (rc_queueName rc \<noteq> '''') (rc_queueName rc = '''')
     False False (Some (requeue_args rc)))"

section \<open>The goroutines\<close>

text \<open>
  Each call of \<open>Requeue\<close> has a number, its publishing, its channel of capacity 1 for the answer
  and a place: before the send, waiting for the answer, or returned. The worker is the loop of
  \<open>ChannelReady\<close> with the name of the declared queue; \<open>rs_global\<close> is the broker's context. The
  header maps are shared with the deliveries (\<open>rs_heap\<close>), so whoever holds one can still change
  what will be published. \<open>rs_original\<close> is not in the code: it remembers the delivery a call was
  made for, as \<open>RequeueWithError\<close> passed it on.
\<close>

datatype rq_place = NotCalled | Sending | Waiting | Returned "go_error option"
datatype rq_worker = WOffline | WLoop string

record rq_sys =
  rs_place :: "nat \<Rightarrow> rq_place"
  rs_pub :: "nat \<Rightarrow> shared_pub"
  rs_original :: "nat \<Rightarrow> shared_in"
  rs_answer :: "nat \<Rightarrow> go_error option chan"
  rs_messages :: "nat chan"
  rs_global :: "go_error option"
  rs_worker :: rq_worker
  rs_heap :: heap
  rs_history :: history

definition rq_start :: "rq_sys \<Rightarrow> bool" where
  "rq_start s \<longleftrightarrow> (\<forall>i. rs_place s i = NotCalled) \<and> rs_messages s = chan_make 1 \<and> rs_worker s = WOffline"

text \<open>\<open>msg.done <- err; close(msg.done)\<close>\<close>

definition answer_caller :: "nat \<Rightarrow> go_error option \<Rightarrow> rq_sys \<Rightarrow> rq_sys outcome" where
  "answer_caller i err s =
     bind_outcome (chan_send (rs_answer s i) err) (\<lambda>c.
     bind_outcome (chan_close c) (\<lambda>c'. Value (s\<lparr>rs_answer := (rs_answer s)(i := c')\<rparr>)))"

text \<open>
  One message taken by the worker: publish to the declared queue, answer, and stop on an error.
\<close>

definition rq_serve :: "broker \<Rightarrow> string \<Rightarrow> nat \<Rightarrow> rq_sys \<Rightarrow> rq_sys outcome" where
  "rq_serve b queue i s =
     (case do_call b (Publish '''' queue False False (wire (rs_heap s) (rs_pub s i))) (rs_history s) of (r, h) \<Rightarrow>
        bind_outcome (answer_caller i (case r of Inl e \<Rightarrow> Some e | Inr _ \<Rightarrow> None) (s\<lparr>rs_history := h\<rparr>)) (\<lambda>s1.
          Value (case r of Inl _ \<Rightarrow> s1\<lparr>rs_worker := WOffline\<rparr> | Inr _ \<Rightarrow> s1)))"

inductive rq_step :: "broker \<Rightarrow> requeue_config \<Rightarrow> rq_sys \<Rightarrow> rq_sys \<Rightarrow> bool"
  for b :: broker and rc :: requeue_config where
  rq_call: "rs_place s i = NotCalled \<Longrightarrow> note_last_error err (d, rs_heap s) = (d', hp) \<Longrightarrow>
    rq_step b rc s (s\<lparr>rs_place := (rs_place s)(i := Sending), rs_heap := hp,
      rs_pub := (rs_pub s)(i := requeue_publishing rc d'), rs_original := (rs_original s)(i := d'),
      rs_answer := (rs_answer s)(i := chan_make 1)\<rparr>)"
| rq_headers: "rq_step b rc s (s\<lparr>rs_heap := hp\<rparr>)"
| rq_send: "rs_place s i = Sending \<Longrightarrow> chan_send (rs_messages s) i = Value c \<Longrightarrow>
    rq_step b rc s (s\<lparr>rs_messages := c, rs_place := (rs_place s)(i := Waiting)\<rparr>)"
| rq_abort: "rs_place s i \<in> {Sending, Waiting} \<Longrightarrow> rs_global s = Some e \<Longrightarrow>
    rq_step b rc s (s\<lparr>rs_place := (rs_place s)(i := Returned (Some e))\<rparr>)"
| rq_answered: "rs_place s i = Waiting \<Longrightarrow> chan_recv (rs_answer s i) = Some (x, c) \<Longrightarrow>
    rq_step b rc s (s\<lparr>rs_answer := (rs_answer s)(i := c),
      rs_place := (rs_place s)(i := Returned (case x of None \<Rightarrow> None | Some r \<Rightarrow> r))\<rparr>)"
| rq_connect: "rs_worker s = WOffline \<Longrightarrow> requeue_setup b rc (rs_history s) = (Inr q, h) \<Longrightarrow>
    rq_step b rc s (s\<lparr>rs_worker := WLoop q, rs_history := h\<rparr>)"
| rq_connect_fails: "rs_worker s = WOffline \<Longrightarrow> requeue_setup b rc (rs_history s) = (Inl e, h) \<Longrightarrow>
    rq_step b rc s (s\<lparr>rs_history := h\<rparr>)"
| rq_take: "rs_worker s = WLoop q \<Longrightarrow> chan_recv (rs_messages s) = Some (Some i, c) \<Longrightarrow>
    rq_serve b q i (s\<lparr>rs_messages := c\<rparr>) = Value t \<Longrightarrow> rq_step b rc s t"
| rq_disconnect: "rs_worker s = WLoop q \<Longrightarrow> rq_step b rc s (s\<lparr>rs_worker := WOffline\<rparr>)"
| rq_shutdown: "rs_global s = None \<Longrightarrow> rq_step b rc s (s\<lparr>rs_global := Some e\<rparr>)"

text \<open>The queue the worker publishes to is the one \<open>QueueDeclare\<close> named.\<close>

definition declared :: "requeue_config \<Rightarrow> string \<Rightarrow> history \<Rightarrow> bool" where
  "declared rc q h \<longleftrightarrow> Did (QueueDeclare (rc_queueName rc) (rc_queueName rc \<noteq> '''') (rc_queueName rc = '''')
     False False (Some (requeue_args rc))) (Inr q) \<in> set h"

text \<open>
  The worker served call \<open>i\<close> with result \<open>r\<close>: at some point of the history it published the copy
  of the call's delivery, with the headers that had then, to the declared queue, and that was
  the broker's answer.
\<close>

definition rq_served :: "broker \<Rightarrow> requeue_config \<Rightarrow> rq_sys \<Rightarrow> nat \<Rightarrow> go_error option \<Rightarrow> bool" where
  "rq_served b rc s i r \<longleftrightarrow> (\<exists>h h2 q hp c. c = Publish '''' q False False (requeue_publishing rc (read_delivery hp (rs_original s i))) \<and>
     rs_history s = h @ Did c (b h c) # h2 \<and> declared rc q h \<and> r = (case b h c of Inl e \<Rightarrow> Some e | Inr _ \<Rightarrow> None))"

definition answer_fresh :: "rq_sys \<Rightarrow> nat \<Rightarrow> bool" where
  "answer_fresh s i \<longleftrightarrow> rs_answer s i = chan_make 1"

text \<open>
  A call in the buffer has an untouched answer channel; one waiting outside the buffer has its
  answer, the broker's; one that returned has returned that or the context's error.
\<close>

fun rq_call_ok :: "broker \<Rightarrow> requeue_config \<Rightarrow> rq_sys \<Rightarrow> nat \<Rightarrow> rq_place \<Rightarrow> bool" where
  "rq_call_ok b rc s i NotCalled = (i \<notin> set (ch_buf (rs_messages s)))"
| "rq_call_ok b rc s i Sending = (i \<notin> set (ch_buf (rs_messages s)) \<and> answer_fresh s i)"
| "rq_call_ok b rc s i Waiting = (if i \<in> set (ch_buf (rs_messages s)) then True
     else \<exists>r. ch_buf (rs_answer s i) = [r] \<and> rq_served b rc s i r)"
| "rq_call_ok b rc s i (Returned r) = (rq_served b rc s i r \<or> r \<noteq> None \<and> r = rs_global s)"

definition rq_inv :: "broker \<Rightarrow> requeue_config \<Rightarrow> rq_sys \<Rightarrow> bool" where
  "rq_inv b rc s \<longleftrightarrow>
     ch_cap (rs_messages s) = 1 \<and> length (ch_buf (rs_messages s)) \<le> 1 \<and> \<not> ch_closed (rs_messages s) \<and>
     (\<forall>i \<in> set (ch_buf (rs_messages s)). answer_fresh s i) \<and>
     (\<forall>q. rs_worker s = WLoop q \<longrightarrow> declared rc q (rs_history s)) \<and>
     (\<forall>i. rs_place s i \<noteq> NotCalled \<longrightarrow> rs_pub s i = requeue_publishing rc (rs_original s i)) \<and>
     (\<forall>i. rq_call_ok b rc s i (rs_place s i))"

lemma rq_serve_result:
  assumes "answer_fresh s i"
  shows "rq_serve b q i s =
    (case b (rs_history s) (Publish '''' q False False (wire (rs_heap s) (rs_pub s i))) of r \<Rightarrow>
       Value (s\<lparr>rs_history := rs_history s @ [Did (Publish '''' q False False (wire (rs_heap s) (rs_pub s i))) r],
         rs_answer := (rs_answer s)(i := \<lparr>ch_cap = 1,
           ch_buf = [case r of Inl e \<Rightarrow> Some e | Inr _ \<Rightarrow> None], ch_closed = True\<rparr>),
         rs_worker := (case r of Inl _ \<Rightarrow> WOffline | Inr _ \<Rightarrow> rs_worker s)\<rparr>))"
  using assms
  by (simp add: rq_serve_def do_call_def answer_caller_def chan_send_def chan_close_def answer_fresh_def
      chan_make_def Let_def split: sum.split)

lemma rq_start_inv: "rq_start s \<Longrightarrow> rq_inv b rc s"
  by (auto simp: rq_start_def rq_inv_def)

text \<open>Steps that leave the calls alone and only add to the history.\<close>

lemma declared_append: "declared rc q h \<Longrightarrow> declared rc q (h @ es)"
  by (simp add: declared_def)

lemma rq_served_mono:
  assumes "rq_served b rc s i r" "rs_history t = rs_history s @ es" "rs_original t i = rs_original s i"
  shows "rq_served b rc t i r"
proof -
  from assms(1) obtain h h2 q hp c where
    "c = Publish '''' q False False (requeue_publishing rc (read_delivery hp (rs_original s i)))"
    "rs_history s = h @ Did c (b h c) # h2" "declared rc q h" "r = (case b h c of Inl e \<Rightarrow> Some e | Inr _ \<Rightarrow> None)"
    unfolding rq_served_def by blast
  with assms(2,3) show ?thesis
    unfolding rq_served_def
    by (intro exI [of _ h] exI [of _ "h2 @ es"] exI [of _ q] exI [of _ hp] exI [of _ c]) simp
qed

lemma rq_call_ok_mono:
  assumes "rq_call_ok b rc s i p" "rs_messages t = rs_messages s" "rs_answer t i = rs_answer s i"
    and "rs_original t i = rs_original s i" "rs_history t = rs_history s @ es" "rs_global s \<noteq> None \<longrightarrow> rs_global t = rs_global s"
  shows "rq_call_ok b rc t i p"
  using assms rq_served_mono [OF _ assms(5,4), of b rc] by (cases p) (auto simp: answer_fresh_def)

lemma requeue_setup_history:
  "requeue_setup b rc h = (r, h') \<Longrightarrow> \<exists>e. h' = h @ [e] \<and> (\<forall>q. r = Inr q \<longrightarrow> declared rc q h')"
  by (auto simp: requeue_setup_def do_call_def Let_def declared_def)

lemma rq_frame_inv:
  assumes "rq_inv b rc s" "rs_messages t = rs_messages s" "rs_answer t = rs_answer s"
    and "rs_pub t = rs_pub s" "rs_original t = rs_original s" "rs_place t = rs_place s"
    and "rs_history t = rs_history s @ es" "rs_global s \<noteq> None \<longrightarrow> rs_global t = rs_global s"
    and "\<And>q. rs_worker t = WLoop q \<Longrightarrow> rs_worker s = WLoop q \<or> declared rc q (rs_history t)"
  shows "rq_inv b rc t"
proof -
  have "declared rc q (rs_history t)" if "rs_worker t = WLoop q" for q
    using assms(9) [OF that] assms(1,7) declared_append by (auto simp: rq_inv_def)
  moreover have "rq_call_ok b rc t i (rs_place t i)" for i
    using rq_call_ok_mono [of b rc s i "rs_place s i" t es] assms by (simp add: rq_inv_def)
  ultimately show ?thesis using assms(1-6) by (simp add: rq_inv_def answer_fresh_def)
qed

lemma rq_take_inv:
  assumes inv: "rq_inv b rc s" and recv: "chan_recv (rs_messages s) = Some (Some i, c)"
    and w: "rs_worker s = WLoop q" and t: "rq_serve b q i (s\<lparr>rs_messages := c\<rparr>) = Value t"
  shows "rq_inv b rc t"
proof -
  from recv inv have buf: "ch_buf (rs_messages s) = [i]" and c: "c = (rs_messages s)\<lparr>ch_buf := []\<rparr>"
    by (auto simp: chan_recv_def rq_inv_def split: list.splits if_splits)
  with inv have fresh: "answer_fresh (s\<lparr>rs_messages := c\<rparr>) i" by (simp add: rq_inv_def answer_fresh_def)
  have called: "rs_place s i \<noteq> NotCalled" using inv buf by (metis list.set_intros(1) rq_call_ok.simps(1) rq_inv_def)
  then have pub: "wire (rs_heap s) (rs_pub s i) = requeue_publishing rc (read_delivery (rs_heap s) (rs_original s i))"
    using inv by (simp add: rq_inv_def wire_requeue_publishing)
  define p where "p = Publish '''' q False False (requeue_publishing rc (read_delivery (rs_heap s) (rs_original s i)))"
  define r where "r = b (rs_history s) p"
  from t fresh pub have t': "rs_messages t = c" "rs_pub t = rs_pub s" "rs_place t = rs_place s" "rs_global t = rs_global s"
    "rs_original t = rs_original s" "rs_history t = rs_history s @ [Did p r]"
    "rs_worker t = (case r of Inl _ \<Rightarrow> WOffline | Inr _ \<Rightarrow> WLoop q)"
    "rs_answer t = (rs_answer s)(i := \<lparr>ch_cap = 1,
      ch_buf = [case r of Inl e \<Rightarrow> Some e | Inr _ \<Rightarrow> None], ch_closed = True\<rparr>)"
    using w by (auto simp: rq_serve_result p_def r_def split: sum.splits)
  have q: "declared rc q (rs_history s)" using inv w by (simp add: rq_inv_def)
  have served: "rq_served b rc t i (case r of Inl e \<Rightarrow> Some e | Inr _ \<Rightarrow> None)"
    unfolding rq_served_def
    using t'(5,6) q r_def p_def
    by (intro exI [of _ "rs_history s"] exI [of _ "[]"] exI [of _ q] exI [of _ "rs_heap s"] exI [of _ p]) simp
  have "rq_call_ok b rc t j (rs_place t j)" for j
  proof (cases "j = i")
    case True
    have "rq_call_ok b rc s i (rs_place s i)" using inv by (simp add: rq_inv_def)
    then show ?thesis
      using True t' buf c served rq_served_mono [of b rc s i _ t "[Did p r]"] called
      by (cases "rs_place s i") auto
  next
    case False
    have "rq_call_ok b rc s j (rs_place s j)" using inv by (simp add: rq_inv_def)
    then show ?thesis
      using False t' buf c rq_served_mono [of b rc s j _ t "[Did p r]"]
      by (cases "rs_place s j") (auto simp: answer_fresh_def)
  qed
  then show ?thesis using inv t' c q declared_append by (auto simp: rq_inv_def split: sum.splits)
qed

lemma rq_step_inv: "rq_step b rc s t \<Longrightarrow> rq_inv b rc s \<Longrightarrow> rq_inv b rc t"
proof (induction rule: rq_step.induct)
  case (rq_call s i err d d' hp)
  let ?t = "s\<lparr>rs_place := (rs_place s)(i := Sending), rs_heap := hp,
      rs_pub := (rs_pub s)(i := requeue_publishing rc d'), rs_original := (rs_original s)(i := d'),
      rs_answer := (rs_answer s)(i := chan_make 1)\<rparr>"
  have ok: "rq_call_ok b rc s j (rs_place s j)" for j using rq_call(3) by (simp add: rq_inv_def)
  with rq_call(1) have "i \<notin> set (ch_buf (rs_messages s))" by (metis rq_call_ok.simps(1))
  moreover have "rq_call_ok b rc ?t j (rs_place ?t j)" for j
  proof (cases "j = i")
    case True
    then show ?thesis using \<open>i \<notin> _\<close> by (simp add: answer_fresh_def)
  next
    case False
    then show ?thesis using ok [of j] rq_call_ok_mono [of b rc s j "rs_place s j" ?t "[]"] by simp
  qed
  ultimately show ?case using rq_call(3) by (auto simp: rq_inv_def answer_fresh_def)
next
  case (rq_send s i c)
  have ok: "rq_call_ok b rc s j (rs_place s j)" for j using rq_send(3) by (simp add: rq_inv_def)
  from rq_send(2,3) have c: "c = (rs_messages s)\<lparr>ch_buf := [i]\<rparr>" "ch_buf (rs_messages s) = []"
    by (auto simp: chan_send_def rq_inv_def split: if_splits)
  moreover have "answer_fresh s i" using ok [of i] rq_send(1) by simp
  moreover have "rq_call_ok b rc (s\<lparr>rs_messages := c, rs_place := (rs_place s)(i := Waiting)\<rparr>) j
      (((rs_place s)(i := Waiting)) j)" for j
    using ok [of j] c by (cases "rs_place s j") (auto simp: answer_fresh_def rq_served_def)
  ultimately show ?case using rq_send(1,3) by (auto simp: rq_inv_def answer_fresh_def)
next
  case (rq_abort s i e)
  let ?t = "s\<lparr>rs_place := (rs_place s)(i := Returned (Some e))\<rparr>"
  have "rq_call_ok b rc ?t j (rs_place ?t j)" for j
    using rq_abort(2,3) rq_call_ok_mono [of b rc s j "rs_place s j" ?t "[]"] by (simp add: rq_inv_def)
  with rq_abort(1,3) show ?case by (auto simp: rq_inv_def answer_fresh_def)
next
  case (rq_answered s i x c)
  let ?t = "s\<lparr>rs_answer := (rs_answer s)(i := c),
      rs_place := (rs_place s)(i := Returned (case x of None \<Rightarrow> None | Some r \<Rightarrow> r))\<rparr>"
  have ok: "rq_call_ok b rc s j (rs_place s j)" for j using rq_answered(3) by (simp add: rq_inv_def)
  have notin: "i \<notin> set (ch_buf (rs_messages s))"
    using rq_answered(2,3) by (auto simp: rq_inv_def answer_fresh_def chan_recv_def)
  with ok [of i] rq_answered(1,2) have "rq_served b rc s i (case x of None \<Rightarrow> None | Some r \<Rightarrow> r)"
    by (auto simp: chan_recv_def)
  then have "rq_served b rc ?t i (case x of None \<Rightarrow> None | Some r \<Rightarrow> r)" by (simp add: rq_served_def)
  moreover have "rq_call_ok b rc ?t j (rs_place s j)" if "j \<noteq> i" for j
    using ok [of j] that rq_call_ok_mono [of b rc s j "rs_place s j" ?t "[]"] by simp
  ultimately show ?case using rq_answered(1,3) notin by (auto simp: rq_inv_def answer_fresh_def)
next
  case (rq_headers s hp)
  then show ?case by (rule rq_frame_inv [where es = "[]"]) auto
next
  case (rq_connect s q h)
  from requeue_setup_history [OF rq_connect(2)] obtain e where "h = rs_history s @ [e]" "declared rc q h" by blast
  then show ?case by (intro rq_frame_inv [OF rq_connect(3), where es = "[e]"]) simp_all
next
  case (rq_connect_fails s e h)
  from requeue_setup_history [OF rq_connect_fails(2)] obtain ev where "h = rs_history s @ [ev]" by blast
  with rq_connect_fails(1) show ?case by (intro rq_frame_inv [OF rq_connect_fails(3), where es = "[ev]"]) simp_all
next
  case (rq_take s q i c t)
  then show ?case by (auto intro: rq_take_inv)
next
  case (rq_disconnect s q)
  show ?case by (rule rq_frame_inv [OF rq_disconnect(2), where es = "[]"]) simp_all
next
  case (rq_shutdown s e)
  from rq_shutdown(1) show ?case by (intro rq_frame_inv [OF rq_shutdown(2), where es = "[]"]) simp_all
qed

interpretation requeue_runs: invariant_system rq_start "rq_step b rc" "rq_inv b rc" for b rc
  by unfold_locales (auto intro: rq_start_inv rq_step_inv)

lemmas reachable_rq_inv = requeue_runs.reachable_inv

section \<open>The contract of a Requeue, and the calls seen from their caller\<close>

text \<open>
  What a sink relies on: when \<open>RequeueWithError\<close> returns nil, a copy of the delivery is stored
  with the broker, and stays so.
\<close>

locale requeuer =
  fixes requeue_with_error :: "msg_in \<Rightarrow> go_error \<Rightarrow> unit amqp"
    and stored :: "msg_in \<Rightarrow> go_error \<Rightarrow> history \<Rightarrow> bool"
  assumes requeue_extends: "extends (requeue_with_error d e)"
    and requeue_stores: "requeue_with_error d e h = (Inr (), h') \<Longrightarrow> stored d e h'"
    and stored_extend: "stored d e h \<Longrightarrow> stored d e (h @ es)"
    and requeue_disposes_nothing: "dispositions tag (snd (requeue_with_error d e h)) = dispositions tag h"
begin

lemma stored_after:
  "requeue_with_error d e h = (Inr (), h') \<Longrightarrow> extends m \<Longrightarrow> stored d e (snd (m h'))"
  using requeue_stores stored_extend by (metis extends_def)

end

text \<open>
  How one call can go, for its caller: the broker's context ends before the message is handed
  over, or while waiting (the worker may or may not have published it meanwhile), or the worker
  answers.
\<close>

datatype rq_run = AbortSending go_error | AbortWaiting bool go_error | Served

definition Requeue_run :: "broker \<Rightarrow> string \<Rightarrow> requeue_config \<Rightarrow> rq_run \<Rightarrow> msg_in \<Rightarrow> unit amqp" where
  "Requeue_run b queue rc run original = (
     let publish = call_unit b (Publish '''' queue False False (requeue_publishing rc original)) in
     case run of
       AbortSending e \<Rightarrow> fail_amqp e
     | AbortWaiting taken e \<Rightarrow> (\<lambda>h. fail_amqp e (snd (guarded taken publish h)))
     | Served \<Rightarrow> publish)"

definition RequeueWithError_run ::
    "broker \<Rightarrow> string \<Rightarrow> requeue_config \<Rightarrow> rq_run \<Rightarrow> msg_in \<Rightarrow> go_error \<Rightarrow> unit amqp" where
  "RequeueWithError_run b queue rc run original err =
     Requeue_run b queue rc run (with_last_error (Some err) original)"

definition copy_stored :: "string \<Rightarrow> requeue_config \<Rightarrow> msg_in \<Rightarrow> go_error \<Rightarrow> history \<Rightarrow> bool" where
  "copy_stored queue rc d e h \<longleftrightarrow>
     (\<exists>n. Did (Publish '''' queue False False (requeue_publishing rc (with_last_error (Some e) d))) (Inr n) \<in> set h)"

lemma extends_then_fail: "extends m \<Longrightarrow> extends (\<lambda>h. fail_amqp e (snd (m h)))"
  by (simp add: extends_def fail_amqp_def)

interpretation rq: requeuer "RequeueWithError_run b queue rc run" "copy_stored queue rc" for b queue rc run
proof (unfold_locales, goal_cases)
  case (1 d e)
  show ?case
    unfolding RequeueWithError_run_def Requeue_run_def Let_def
    by (cases run) (simp_all add: extends_intros extends_then_fail)
next
  case (2 d e h h')
  then show ?case
    by (cases run) (auto simp: RequeueWithError_run_def Requeue_run_def copy_stored_def amqp_defs Let_def
        split: sum.splits if_splits)
next
  case (3 d e h es)
  then show ?case by (auto simp: copy_stored_def)
next
  case (4 tag d e h)
  show ?case
    by (cases run) (auto simp: RequeueWithError_run_def Requeue_run_def amqp_defs Let_def split: sum.split)
qed

text \<open>
  The sequential view agrees with the goroutines. From any state in which the worker waits for
  work and call \<open>i\<close> is not made yet, each of the three ways has a run of the system in which the
  call returns the same and the history grows by the same.
\<close>

lemma requeue_run_possible:
  assumes place: "rs_place s i = NotCalled" and worker: "rs_worker s = WLoop q"
    and messages: "rs_messages s = chan_make 1" and global: "rs_global s = None"
    and result: "RequeueWithError_run b q rc run (read_delivery (rs_heap s) d) err (rs_history s) = (r, h')"
  shows "\<exists>t. rtranclp (rq_step b rc) s t \<and> rs_history t = h' \<and>
    rs_place t i = Returned (case r of Inl e \<Rightarrow> Some e | Inr _ \<Rightarrow> None) \<and>
    (\<exists>hp. read_delivery hp (rs_original t i) = with_last_error (Some err) (read_delivery (rs_heap s) d))"
proof -
  let ?R = "rq_step b rc"
  obtain d' hp where noted: "note_last_error (Some err) (d, rs_heap s) = (d', hp)" by (meson surj_pair)
  define p where "p = requeue_publishing rc (with_last_error (Some err) (read_delivery (rs_heap s) d))"
  have p: "wire hp (requeue_publishing rc d') = p"
    using read_note_last_error [OF noted] by (simp add: wire_requeue_publishing p_def)
  have original: "\<exists>hp. read_delivery hp (rs_original t i) = with_last_error (Some err) (read_delivery (rs_heap s) d)"
    if "rs_original t i = d'" for t :: rq_sys
    using read_note_last_error [OF noted] that by (intro exI [of _ hp]) simp
  define s1 where "s1 = s\<lparr>rs_place := (rs_place s)(i := Sending), rs_heap := hp,
      rs_pub := (rs_pub s)(i := requeue_publishing rc d'), rs_original := (rs_original s)(i := d'),
      rs_answer := (rs_answer s)(i := chan_make 1)\<rparr>"
  have s1: "?R s s1" unfolding s1_def using place noted by (rule rq_step.rq_call)
  define s2 where "s2 = s1\<lparr>rs_messages := (chan_make 1)\<lparr>ch_buf := [i]\<rparr>, rs_place := (rs_place s1)(i := Waiting)\<rparr>"
  have s2: "?R s1 s2"
    unfolding s2_def by (rule rq_step.rq_send) (simp_all add: s1_def messages chan_send_def)
  define x where "x = b (rs_history s) (Publish '''' q False False p)"
  let ?err = "case x of Inl e \<Rightarrow> Some e | Inr _ \<Rightarrow> None"
  define s3 where "s3 = s2\<lparr>rs_messages := chan_make 1,
      rs_history := rs_history s @ [Did (Publish '''' q False False p) x],
      rs_answer := (rs_answer s2)(i := \<lparr>ch_cap = 1, ch_buf = [?err], ch_closed = True\<rparr>),
      rs_worker := (case x of Inl _ \<Rightarrow> WOffline | Inr _ \<Rightarrow> WLoop q)\<rparr>"
  have s3: "?R s2 s3"
  proof (rule rq_step.rq_take)
    show "rs_worker s2 = WLoop q" by (simp add: s2_def s1_def worker)
    show "chan_recv (rs_messages s2) = Some (Some i, chan_make 1)"
      by (simp add: s2_def chan_recv_def chan_make_def)
    show "rq_serve b q i (s2\<lparr>rs_messages := chan_make 1\<rparr>) = Value s3"
      by (simp add: rq_serve_result answer_fresh_def s2_def s1_def p s3_def x_def worker split: sum.split)
  qed
  have abort: "\<exists>t. rtranclp ?R s t \<and> rs_history t = rs_history u \<and> rs_place t i = Returned (Some e) \<and> rs_original t i = d'"
    if "rs_place u i \<in> {Sending, Waiting}" "rs_global u = None" "rtranclp ?R s u" "rs_original u i = d'" for u e
  proof -
    have "?R u (u\<lparr>rs_global := Some e\<rparr>)" using that(2) by (rule rq_step.rq_shutdown)
    moreover have "?R (u\<lparr>rs_global := Some e\<rparr>) (u\<lparr>rs_global := Some e, rs_place := (rs_place u)(i := Returned (Some e))\<rparr>)"
      using rq_step.rq_abort [of "u\<lparr>rs_global := Some e\<rparr>" i e b rc] that(1) by simp
    ultimately have "rtranclp ?R u (u\<lparr>rs_global := Some e, rs_place := (rs_place u)(i := Returned (Some e))\<rparr>)"
      using run_end by (simp only: run_step)
    with that(3) have "rtranclp ?R s (u\<lparr>rs_global := Some e, rs_place := (rs_place u)(i := Returned (Some e))\<rparr>)"
      by (rule rtranclp_trans)
    with that(4) show ?thesis
      by (intro exI [of _ "u\<lparr>rs_global := Some e, rs_place := (rs_place u)(i := Returned (Some e))\<rparr>"]) simp
  qed
  have run1: "rtranclp ?R s s1" and run2: "rtranclp ?R s s2" and run3: "rtranclp ?R s s3"
    using s1 s2 s3 run_end by (simp_all only: run_step)
  show ?thesis
  proof (cases run)
    case (AbortSending e)
    with result have "r = Inl e" "h' = rs_history s1"
      by (auto simp: RequeueWithError_run_def Requeue_run_def fail_amqp_def s1_def Let_def)
    with abort [of s1 e] run1 original show ?thesis by (auto simp: s1_def global)
  next
    case (AbortWaiting taken e)
    show ?thesis
    proof (cases taken)
      case False
      with AbortWaiting result have "r = Inl e" "h' = rs_history s2"
        by (auto simp: RequeueWithError_run_def Requeue_run_def amqp_defs s2_def s1_def Let_def)
      with abort [of s2 e] run2 original show ?thesis by (auto simp: s2_def s1_def global)
    next
      case True
      with AbortWaiting result have "r = Inl e" "h' = rs_history s3"
        by (auto simp: RequeueWithError_run_def Requeue_run_def amqp_defs s3_def x_def p_def Let_def split: sum.splits)
      with abort [of s3 e] run3 original show ?thesis by (auto simp: s3_def s2_def s1_def global)
    qed
  next
    case Served
    then have r: "r = map_sum id (\<lambda>_. ()) x" "h' = rs_history s3"
      using result by (auto simp: RequeueWithError_run_def Requeue_run_def amqp_defs s3_def x_def p_def Let_def split: sum.splits)
    let ?t = "s3\<lparr>rs_answer := (rs_answer s3)(i := \<lparr>ch_cap = 1, ch_buf = [], ch_closed = True\<rparr>),
      rs_place := (rs_place s3)(i := Returned ?err)\<rparr>"
    have "?R s3 ?t"
      using rq_step.rq_answered [of s3 i "Some ?err" "\<lparr>ch_cap = 1, ch_buf = [], ch_closed = True\<rparr>" b rc]
      by (simp add: s3_def s2_def chan_recv_def)
    with run3 have run: "rtranclp ?R s ?t" by (rule rtranclp.rtrancl_into_rtrancl)
    moreover have "rs_original ?t i = d'" by (simp add: s3_def s2_def s1_def)
    ultimately show ?thesis using r original by (intro exI [of _ ?t]) (auto split: sum.split)
  qed
qed

section \<open>Properties\<close>

definition demo_delivery :: msg_in where
  "demo_delivery = \<lparr>d_Headers = None, d_ContentType = ''text/plain'', d_ContentEncoding = '''',
     d_DeliveryMode = persistent, d_CorrelationId = ''c'', d_ReplyTo = ''r'', d_Expiration = '''',
     d_MessageId = ''id'', d_Timestamp = UtcTime 5, d_Type = '''', d_DeliveryTag = 1,
     d_RoutingKey = ''key'', d_Body = ''body''\<rparr>"

definition demo_shared :: shared_in where
  "demo_shared = \<lparr>d_Headers = None, d_ContentType = ''text/plain'', d_ContentEncoding = '''',
     d_DeliveryMode = persistent, d_CorrelationId = ''c'', d_ReplyTo = ''r'', d_Expiration = '''',
     d_MessageId = ''id'', d_Timestamp = UtcTime 5, d_Type = '''', d_DeliveryTag = 1,
     d_RoutingKey = ''key'', d_Body = ''body''\<rparr>"

definition rq_demo_start :: rq_sys where
  "rq_demo_start = \<lparr>rs_place = (\<lambda>_. NotCalled), rs_pub = (\<lambda>_. zero_publishing None),
     rs_original = (\<lambda>_. demo_shared),
     rs_answer = (\<lambda>_. chan_make 0), rs_messages = chan_make 1, rs_global = None, rs_worker = WOffline,
     rs_heap = \<lparr>hp_table = (\<lambda>_. []), hp_next = 0\<rparr>, rs_history = []\<rparr>"

definition named_broker :: broker where
  "named_broker h c = Inr ''q/requeue''"

text \<open>The worker connects; then a call of \<open>RequeueWithError\<close> goes through.\<close>

definition rq_demo_ready :: rq_sys where
  "rq_demo_ready = rq_demo_start\<lparr>rs_worker := WLoop ''q/requeue'', rs_history :=
     [Did (QueueDeclare ''q/requeue'' True False False False (Some (requeue_args (newRequeue ''q'')))) (Inr ''q/requeue'')]\<rparr>"

lemma rq_demo_starts [simp]: "rq_start rq_demo_start"
  by (simp add: rq_start_def rq_demo_start_def)

lemma rq_demo_ready_run: "rtranclp (rq_step named_broker (newRequeue ''q'')) rq_demo_start rq_demo_ready"
proof -
  have "rq_step named_broker (newRequeue ''q'') rq_demo_start rq_demo_ready"
    unfolding rq_demo_ready_def
    by (rule rq_step.rq_connect)
      (simp_all add: rq_demo_start_def requeue_setup_def do_call_def named_broker_def newRequeue_def Let_def)
  then show ?thesis by (rule r_into_rtranclp)
qed

lemma rq_demo_run:
  "\<exists>t. rtranclp (rq_step named_broker (newRequeue ''q'')) rq_demo_start t \<and> rs_place t 0 = Returned None \<and>
     d_Body (rs_original t 0) = ''body''"
proof -
  obtain r h' where run: "RequeueWithError_run named_broker ''q/requeue'' (newRequeue ''q'') Served
      (read_delivery (rs_heap rq_demo_ready) demo_shared) (Err ''oops'') (rs_history rq_demo_ready) = (r, h')"
    by (meson surj_pair)
  then have "r = Inr ()"
    by (auto simp: RequeueWithError_run_def Requeue_run_def amqp_defs named_broker_def Let_def)
  with requeue_run_possible [OF _ _ _ _ run, of 0] obtain t hp where
    t: "rtranclp (rq_step named_broker (newRequeue ''q'')) rq_demo_ready t" "rs_place t 0 = Returned None"
      "read_delivery hp (rs_original t 0) = with_last_error (Some (Err ''oops'')) (read_delivery (rs_heap rq_demo_ready) demo_shared)"
    by (auto simp: rq_demo_ready_def rq_demo_start_def)
  from t(3) have "d_Body (read_delivery hp (rs_original t 0)) = ''body''"
    by (simp add: read_delivery_def demo_shared_def)
  with t(1,2) rq_demo_ready_run show ?thesis
    by (intro exI [of _ t]) (auto simp: read_delivery_def intro: rtranclp_trans)
qed

text \<open>
  C10: Whatever the callers, the worker, the connection and the broker's context do, a call of
  \<open>Requeue\<close> that returned nil had its copy published: \<open>ch.Publish\<close> returned nil for a message sent
  to the declared queue that has the body, the identifiers, the reply queue, the type, content
  type and encoding and the time stamp of the delivery the call was made for, the configured delay
  as its expiration, and headers if the delivery has any. (The library asks for no publisher
  confirms, so nil is all \<open>ch.Publish\<close> says.)
\<close>

theorem requeue_nil_means_published:
  assumes "rtranclp (rq_step b rc) s0 s" and "rq_start s0" and "rs_place s i = Returned None"
  shows "\<exists>h h2 q p n. rs_history s = h @ Did (Publish '''' q False False p) (Inr n) # h2 \<and>
    Did (QueueDeclare (rc_queueName rc) (rc_queueName rc \<noteq> '''') (rc_queueName rc = '''')
      False False (Some (requeue_args rc))) (Inr q) \<in> set h \<and>
    p_Body p = d_Body (rs_original s i) \<and> p_MessageId p = d_MessageId (rs_original s i) \<and>
    p_CorrelationId p = d_CorrelationId (rs_original s i) \<and> p_ReplyTo p = d_ReplyTo (rs_original s i) \<and>
    p_Type p = d_Type (rs_original s i) \<and> p_ContentType p = d_ContentType (rs_original s i) \<and>
    p_ContentEncoding p = d_ContentEncoding (rs_original s i) \<and> p_Timestamp p = d_Timestamp (rs_original s i) \<and>
    parse_int (p_Expiration p) = duration_ms (rc_timeout rc) \<and>
    (p_Headers p = None \<longleftrightarrow> d_Headers (rs_original s i) = None)"
proof -
  have "rq_served b rc s i None"
    using reachable_rq_inv [OF assms(1,2)] assms(3) unfolding rq_inv_def by (metis rq_call_ok.simps(4))
  then obtain h h2 q hp c where
    c: "c = Publish '''' q False False (requeue_publishing rc (read_delivery hp (rs_original s i)))"
    "rs_history s = h @ Did c (b h c) # h2" "declared rc q h" "None = (case b h c of Inl e \<Rightarrow> Some e | Inr _ \<Rightarrow> None)"
    unfolding rq_served_def by blast
  from c(4) obtain n where "b h c = Inr n" by (cases "b h c") auto
  with c show ?thesis
    by (intro exI [of _ h] exI [of _ h2] exI [of _ q]
        exI [of _ "requeue_publishing rc (read_delivery hp (rs_original s i))"] exI [of _ n])
      (simp add: declared_def read_delivery_def)
qed

theorem requeue_nil_means_published_witness:
  "\<exists>t q p n. rtranclp (rq_step named_broker (newRequeue ''q'')) rq_demo_start t \<and>
     Did (Publish '''' q False False p) (Inr n) \<in> set (rs_history t) \<and> p_Body p = ''body''"
proof -
  obtain t where t: "rtranclp (rq_step named_broker (newRequeue ''q'')) rq_demo_start t"
    "rs_place t 0 = Returned None" "d_Body (rs_original t 0) = ''body''"
    using rq_demo_run by blast
  from requeue_nil_means_published [OF t(1) rq_demo_starts t(2)] obtain h h2 q p n where
    "rs_history t = h @ Did (Publish '''' q False False p) (Inr n) # h2" "p_Body p = d_Body (rs_original t 0)"
    by blast
  with t show ?thesis by (intro exI [of _ t] exI [of _ q] exI [of _ p] exI [of _ n]) simp
qed

text \<open>
  C12: Every return of a call is one of the outcomes of the sequential view: it returned what
  \<open>Requeue_run\<close> gives for the worker serving it, at some point of the history (with the headers
  the delivery had then), with the queue the worker declared, or it returned the error of the
  broker's context.
\<close>

theorem requeue_returns_are_runs:
  assumes "rtranclp (rq_step b rc) s0 s" and "rq_start s0" and "rs_place s i = Returned r"
  shows "(\<exists>h h' h2 q hp. rs_history s = h' @ h2 \<and> declared rc q h \<and>
      Requeue_run b q rc Served (read_delivery hp (rs_original s i)) h = (case r of None \<Rightarrow> Inr () | Some e \<Rightarrow> Inl e, h'))
    \<or> (\<exists>e. r = Some e \<and> rs_global s = Some e)"
proof -
  have "rq_served b rc s i r \<or> r \<noteq> None \<and> r = rs_global s"
    using reachable_rq_inv [OF assms(1,2)] assms(3) unfolding rq_inv_def by (metis rq_call_ok.simps(4))
  then show ?thesis
  proof
    assume "rq_served b rc s i r"
    then obtain h h2 q hp c where
      c: "c = Publish '''' q False False (requeue_publishing rc (read_delivery hp (rs_original s i)))"
      "rs_history s = h @ Did c (b h c) # h2" "declared rc q h" "r = (case b h c of Inl e \<Rightarrow> Some e | Inr _ \<Rightarrow> None)"
      unfolding rq_served_def by blast
    then have "Requeue_run b q rc Served (read_delivery hp (rs_original s i)) h =
        (case r of None \<Rightarrow> Inr () | Some e \<Rightarrow> Inl e, h @ [Did c (b h c)])"
      by (simp add: Requeue_run_def amqp_defs Let_def split: sum.split)
    with c(2,3) show ?thesis by (metis append.assoc append_Cons append_Nil)
  qed auto
qed

theorem requeue_returns_are_runs_witness:
  "\<exists>t h h' q hp. rtranclp (rq_step named_broker (newRequeue ''q'')) rq_demo_start t \<and>
     Requeue_run named_broker q (newRequeue ''q'') Served (read_delivery hp (rs_original t 0)) h = (Inr (), h')"
proof -
  obtain t where t: "rtranclp (rq_step named_broker (newRequeue ''q'')) rq_demo_start t" "rs_place t 0 = Returned None"
    using rq_demo_run by blast
  from requeue_returns_are_runs [OF t(1) rq_demo_starts t(2)] obtain h h' q hp where
    "Requeue_run named_broker q (newRequeue ''q'') Served (read_delivery hp (rs_original t 0)) h = (Inr (), h')"
    by auto
  with t(1) show ?thesis by blast
qed

text \<open>
  C11: The worker never panics or blocks on an answer: whenever it takes a call from the
  channel, that call's answer channel is open and has room.
\<close>

theorem requeue_worker_never_panics:
  assumes "rtranclp (rq_step b rc) s0 s" and "rq_start s0"
    and "chan_recv (rs_messages s) = Some (x, c)"
  shows "\<exists>i t. x = Some i \<and> rq_serve b q i (s\<lparr>rs_messages := c\<rparr>) = Value t"
proof -
  have inv: "rq_inv b rc s" using assms(1,2) by (rule reachable_rq_inv)
  with assms(3) obtain i where i: "x = Some i" "i \<in> set (ch_buf (rs_messages s))"
    by (auto simp: chan_recv_def rq_inv_def split: list.splits if_splits)
  with inv have "answer_fresh (s\<lparr>rs_messages := c\<rparr>) i" by (simp add: rq_inv_def answer_fresh_def)
  with i show ?thesis by (auto simp: rq_serve_result)
qed

definition rq_demo_sent :: rq_sys where
  "rq_demo_sent = rq_demo_start\<lparr>rs_place := (\<lambda>_. NotCalled)(0 := Waiting),
     rs_pub := (\<lambda>_. zero_publishing None)(0 := requeue_publishing (newRequeue ''q'') demo_shared),
     rs_original := (rs_original rq_demo_start)(0 := demo_shared),
     rs_answer := (\<lambda>_. chan_make 0)(0 := chan_make 1), rs_messages := (chan_make 1)\<lparr>ch_buf := [0]\<rparr>\<rparr>"

lemma rq_demo_sent_run: "rtranclp (rq_step named_broker (newRequeue ''q'')) rq_demo_start rq_demo_sent"
proof -
  let ?s1 = "rq_demo_start\<lparr>rs_place := (rs_place rq_demo_start)(0 := Sending),
      rs_heap := rs_heap rq_demo_start,
      rs_pub := (rs_pub rq_demo_start)(0 := requeue_publishing (newRequeue ''q'') demo_shared),
      rs_original := (rs_original rq_demo_start)(0 := demo_shared),
      rs_answer := (rs_answer rq_demo_start)(0 := chan_make 1)\<rparr>"
  have "rq_step named_broker (newRequeue ''q'') rq_demo_start ?s1"
    by (rule rq_step.rq_call [where err = None and d = demo_shared])
      (simp_all add: rq_demo_start_def note_last_error_def)
  moreover have "rq_step named_broker (newRequeue ''q'') ?s1 rq_demo_sent"
    using rq_step.rq_send [of ?s1 0 "(chan_make 1)\<lparr>ch_buf := [0]\<rparr>" named_broker "newRequeue ''q''"]
    by (simp add: rq_demo_start_def rq_demo_sent_def chan_send_def)
  ultimately show ?thesis using run_end by (simp only: run_step)
qed

theorem requeue_worker_never_panics_witness:
  "\<exists>i t. rq_serve named_broker ''q/requeue'' i (rq_demo_sent\<lparr>rs_messages := chan_make 1\<rparr>) = Value t"
proof -
  have "rq_start rq_demo_start" by (simp add: rq_start_def rq_demo_start_def)
  moreover have "chan_recv (rs_messages rq_demo_sent) = Some (Some 0, chan_make 1)"
    by (simp add: rq_demo_sent_def chan_recv_def chan_make_def)
  ultimately show ?thesis using requeue_worker_never_panics [OF rq_demo_sent_run] by blast
qed

text \<open>
  What a requeued copy keeps and what it does not: body, identifiers, type, content type
  and encoding, time stamp and headers are the original's, the last error is added to the
  headers, the expiration is the configured delay in whole milliseconds. The delivery mode is
  not kept: the copy of a persistent message is transient.
\<close>

lemma requeued_copy:
  "let p = requeue_publishing rc (with_last_error (Some e) d) in
    p_Body p = d_Body d \<and> p_MessageId p = d_MessageId d \<and> p_CorrelationId p = d_CorrelationId d \<and>
    p_ReplyTo p = d_ReplyTo d \<and> parse_int (p_Expiration p) = duration_ms (rc_timeout rc) \<and>
    map_get (p_Headers p) k = (if k = LastErrorHeader then Some (VString (error_text e)) else map_get (d_Headers d) k) \<and>
    p_DeliveryMode p = 0"
  by (simp add: with_last_error_headers Let_def)

end
