(* ===== verification/Sink.thy ===== *)
theory Sink
  imports Amqp_Model Requeuer
begin

text \<open>
  \<open>sink.go\<close>: the configuration of a consumer, \<open>sink.ChannelReady\<close> (set-up, then the loop over
  deliveries with its retry limits and filters), the handler \<open>TransactFunc\<close> builds, and the two
  readers of the \<open>x-death\<close> header. User functions get the history and the delivery; the
  \<open>select\<close> of the loop is the list of what it takes, in order.
\<close>

section \<open>Reading the x-death header\<close>

text \<open>The first entry of the \<open>x-death\<close> array, where it is an array of a table.\<close>

definition getRedelivery :: "msg_in \<Rightarrow> 64 word" where
  "getRedelivery msg =
     (case map_get (d_Headers msg) ''x-death'' of
        Some (VArray (VTable t # _)) \<Rightarrow>
          (case map_of t ''count'' of Some (VInt64 n) \<Rightarrow> n | _ \<Rightarrow> 0)
      | _ \<Rightarrow> 0)"

definition restoreRoutingKey :: "msg_in \<Rightarrow> string" where
  "restoreRoutingKey msg =
     (case map_get (d_Headers msg) ''x-death'' of
        Some (VArray (VTable t # _)) \<Rightarrow>
          (case map_of t ''routing-keys'' of Some (VArray (VString rk # _)) \<Rightarrow> rk | _ \<Rightarrow> d_RoutingKey msg)
      | _ \<Rightarrow> d_RoutingKey msg)"

section \<open>Configuration\<close>

record exchange =
  ex_name :: string
  ex_kind :: string
  ex_binding :: "string list"
  ex_attrs :: "table option"

text \<open>
  \<open>SinkExpiredHandlerFunc\<close>, with the sink's name as first argument for the default handlers
  of the broker, which are called with the name the sink has by then.
\<close>

type_synonym expired_handler = "string \<Rightarrow> history \<Rightarrow> msg_in \<Rightarrow> 64 word \<Rightarrow> bool"
type_synonym receiver_handler = "history \<Rightarrow> msg_in \<Rightarrow> bool \<times> msg_in"
type_synonym ready_handler = "history \<Rightarrow> go_error option"

record sink_config =
  sk_name :: string
  sk_queueName :: string
  sk_bindings :: "exchange list"
  sk_middleware :: "receiver_handler list"
  sk_ready :: "ready_handler list"
  sk_autoAck :: bool
  sk_verbose :: bool
  sk_deadQueue :: string
  sk_deadExchange :: string
  sk_attrs :: "table option"
  sk_retries :: "64 word"
  sk_expired :: "expired_handler option"
  sk_tooMuch :: "expired_handler option"
  sk_threshold :: "64 word"
  sk_rqConfig :: "requeue_config option"

definition OnExpired :: "expired_handler option \<Rightarrow> sink_config \<Rightarrow> sink_config" where
  "OnExpired h snk = snk\<lparr>sk_expired := h\<rparr>"

definition OnTooMuchRetries :: "64 word \<Rightarrow> expired_handler option \<Rightarrow> sink_config \<Rightarrow> sink_config" where
  "OnTooMuchRetries threshold h snk = snk\<lparr>sk_tooMuch := h, sk_threshold := threshold\<rparr>"

text \<open>The defaults \<open>newSink\<close> takes from the broker's configuration.\<close>

record sink_defaults =
  df_retries :: "64 word"
  df_expired :: "expired_handler option"
  df_tooMuch :: "expired_handler option"
  df_threshold :: "64 word"
  df_verbose :: bool

definition newSink :: "string \<Rightarrow> sink_defaults \<Rightarrow> sink_config" where
  "newSink queue df = (
     let snk = \<lparr>sk_name = '''', sk_queueName = queue, sk_bindings = [], sk_middleware = [], sk_ready = [],
           sk_autoAck = True, sk_verbose = df_verbose df, sk_deadQueue = '''', sk_deadExchange = '''',
           sk_attrs = None, sk_retries = df_retries df, sk_expired = None, sk_tooMuch = None,
           sk_threshold = 0, sk_rqConfig = None\<rparr>;
         snk1 = (if df_expired df \<noteq> None then OnExpired (df_expired df) snk else snk)
     in if df_tooMuch df \<noteq> None then OnTooMuchRetries (df_threshold df) (df_tooMuch df) snk1 else snk1)"

definition sink_Name :: "string \<Rightarrow> sink_config \<Rightarrow> sink_config" where
  "sink_Name name snk = snk\<lparr>sk_name := name\<rparr>"

definition sink_Requeue :: "64 word \<Rightarrow> sink_config \<Rightarrow> sink_config" where
  "sink_Requeue interval snk = snk\<lparr>sk_rqConfig := Some (requeue_Timeout interval (newRequeue (sk_queueName snk)))\<rparr>"

definition ManualAck :: "sink_config \<Rightarrow> sink_config" where
  "ManualAck snk = snk\<lparr>sk_autoAck := False\<rparr>"

definition sink_Verbose :: "bool \<Rightarrow> sink_config \<Rightarrow> sink_config" where
  "sink_Verbose v snk = snk\<lparr>sk_verbose := v\<rparr>"

definition sink_Use :: "receiver_handler \<Rightarrow> sink_config \<Rightarrow> sink_config" where
  "sink_Use f snk = snk\<lparr>sk_middleware := sk_middleware snk @ [f]\<rparr>"

definition sink_Attr :: "string \<Rightarrow> amqp_value \<Rightarrow> sink_config \<Rightarrow> sink_config" where
  "sink_Attr k v snk = snk\<lparr>sk_attrs := Some (map_put (sk_attrs snk) k v)\<rparr>"

definition deadLetterQueue :: "string \<Rightarrow> sink_config \<Rightarrow> sink_config" where
  "deadLetterQueue name snk = (let snk1 = snk\<lparr>sk_deadQueue := name\<rparr> in
     if name = '''' then snk1\<lparr>sk_attrs := map_delete (sk_attrs snk1) ''x-dead-letter-routing-key''\<rparr>
     else sink_Attr ''x-dead-letter-routing-key'' (VString name) snk1)"

definition deadLetterExchange :: "string \<Rightarrow> sink_config \<Rightarrow> sink_config" where
  "deadLetterExchange name snk = (let snk1 = snk\<lparr>sk_deadExchange := name\<rparr> in
     if name = '''' then snk1\<lparr>sk_attrs := map_delete (sk_attrs snk1) ''x-dead-letter-exchange''\<rparr>
     else sink_Attr ''x-dead-letter-exchange'' (VString name) snk1)"

definition Lazy :: "sink_config \<Rightarrow> sink_config" where
  "Lazy = sink_Attr ''x-queue-mode'' (VString ''lazy'')"

definition Retries :: "64 word \<Rightarrow> sink_config \<Rightarrow> sink_config" where
  "Retries count snk = snk\<lparr>sk_retries := count\<rparr>"

definition DeadLetter :: "string \<Rightarrow> string \<Rightarrow> sink_config \<Rightarrow> sink_config" where
  "DeadLetter exch routing_key snk = deadLetterQueue routing_key (deadLetterExchange exch snk)"

definition KeepDead :: "sink_config \<Rightarrow> sink_config" where
  "KeepDead snk = DeadLetter ''dead.messages'' (sk_queueName snk @ ''/dead'') snk"

definition sink_Ready :: "ready_handler \<Rightarrow> sink_config \<Rightarrow> sink_config" where
  "sink_Ready f snk = snk\<lparr>sk_ready := sk_ready snk @ [f]\<rparr>"

text \<open>
  \<open>Topic\<close>, \<open>Direct\<close> and \<open>Fanout\<close> append an exchange and return it; the methods of \<open>Exchange\<close>
  go on with the exchange appended last, which the caller holds.
\<close>

definition sink_exchange :: "string \<Rightarrow> string \<Rightarrow> sink_config \<Rightarrow> sink_config" where
  "sink_exchange name kind snk =
     snk\<lparr>sk_bindings := sk_bindings snk @ [\<lparr>ex_name = name, ex_kind = kind, ex_binding = [], ex_attrs = None\<rparr>]\<rparr>"

definition sink_Topic :: "string \<Rightarrow> sink_config \<Rightarrow> sink_config" where
  "sink_Topic name = sink_exchange name ''topic''"

definition sink_Direct :: "string \<Rightarrow> sink_config \<Rightarrow> sink_config" where
  "sink_Direct name = sink_exchange name ''direct''"

definition sink_Fanout :: "string \<Rightarrow> sink_config \<Rightarrow> sink_config" where
  "sink_Fanout name = sink_exchange name ''fanout''"

definition exchange_Key :: "string list \<Rightarrow> exchange \<Rightarrow> exchange" where
  "exchange_Key keys exc = exc\<lparr>ex_binding := ex_binding exc @ keys\<rparr>"

definition exchange_Attr :: "string \<Rightarrow> amqp_value \<Rightarrow> exchange \<Rightarrow> exchange" where
  "exchange_Attr k v exc = exc\<lparr>ex_attrs := Some (map_put (ex_attrs exc) k v)\<rparr>"

text \<open>The same methods of \<open>Exchange\<close> append to the sink the exchange belongs to.\<close>

definition exchange_Topic :: "string \<Rightarrow> sink_config \<Rightarrow> sink_config" where
  "exchange_Topic name snk = sink_exchange name ''topic'' snk"

definition exchange_Direct :: "string \<Rightarrow> sink_config \<Rightarrow> sink_config" where
  "exchange_Direct name snk = sink_exchange name ''direct'' snk"

definition exchange_Fanout :: "string \<Rightarrow> sink_config \<Rightarrow> sink_config" where
  "exchange_Fanout name snk = sink_exchange name ''fanout'' snk"

text \<open>A method of the exchange held by the caller, seen in the sink it belongs to.\<close>

definition on_exchange :: "nat \<Rightarrow> (exchange \<Rightarrow> exchange) \<Rightarrow> sink_config \<Rightarrow> sink_config" where
  "on_exchange i f snk = snk\<lparr>sk_bindings := (sk_bindings snk)[i := f (sk_bindings snk ! i)]\<rparr>"

section \<open>ChannelReady: set-up\<close>

definition sink_dead_setup :: "broker \<Rightarrow> sink_config \<Rightarrow> unit amqp" where
  "sink_dead_setup b s =
     and_then (guarded (sk_deadExchange s \<noteq> '''')
       (call_unit b (ExchangeDeclare (sk_deadExchange s) ''direct'' True False False False None))) (\<lambda>_.
     and_then (guarded (sk_deadQueue s \<noteq> '''')
       (call_unit b (QueueDeclare (sk_deadQueue s) True False False False None))) (\<lambda>_.
     guarded (sk_deadExchange s \<noteq> '''' \<and> sk_deadQueue s \<noteq> '''')
       (call_unit b (QueueBind (sk_deadQueue s) (sk_deadQueue s) (sk_deadExchange s) False None))))"

definition sink_bind_exchange :: "broker \<Rightarrow> string \<Rightarrow> exchange \<Rightarrow> unit amqp" where
  "sink_bind_exchange b queue exc =
     and_then (call_unit b (ExchangeDeclare (ex_name exc) (ex_kind exc) True False False False (ex_attrs exc))) (\<lambda>_.
     for_each (\<lambda>key. call_unit b (QueueBind queue key (ex_name exc) False None)) (ex_binding exc))"

definition sink_setup :: "broker \<Rightarrow> sink_config \<Rightarrow> string amqp" where
  "sink_setup b s =
     and_then (sink_dead_setup b s) (\<lambda>_.
     and_then (do_call b (QueueDeclare (sk_queueName s) (sk_queueName s \<noteq> '''') (sk_queueName s = '''')
       False False (sk_attrs s))) (\<lambda>queue.
     and_then (for_each (sink_bind_exchange b queue) (sk_bindings s)) (\<lambda>_.
     and_then (call_unit b (Consume queue '''' (sk_autoAck s) False False False None)) (\<lambda>_.
     pure_amqp queue))))"

text \<open>The ready handlers, stopping at the first error.\<close>

fun run_ready :: "nat \<Rightarrow> ready_handler list \<Rightarrow> unit amqp" where
  "run_ready i [] h = (Inr (), h)"
| "run_ready i (f # fs) h =
     (case f h of
        Some e \<Rightarrow> (Inl e, h @ [RanReady i (Some e)])
      | None \<Rightarrow> run_ready (Suc i) fs (h @ [RanReady i None]))"

section \<open>ChannelReady: one delivery\<close>

text \<open>
  Whether to keep the message: the threshold handler is asked first, then, past the limit, the
  expired handler, but only if the answer so far was to keep it.
\<close>

definition ask_too_much :: "sink_config \<Rightarrow> msg_in \<Rightarrow> bool amqp" where
  "ask_too_much s d h =
     (let retries = getRedelivery d in
      case sk_tooMuch s of
        None \<Rightarrow> (Inr True, h)
      | Some f \<Rightarrow>
          if sint (sk_threshold s) \<le> sint retries
          then let keep = f (sk_name s) h d retries in (Inr keep, h @ [AskedTooMuch d retries keep])
          else (Inr True, h))"

definition ask_expired :: "sink_config \<Rightarrow> msg_in \<Rightarrow> bool \<Rightarrow> bool amqp" where
  "ask_expired s d keep h =
     (let retries = getRedelivery d in
      if 0 \<le> sint (sk_retries s) \<and> sint (sk_retries s) < sint retries then
        (case sk_expired s of
           None \<Rightarrow> (Inr False, h)
         | Some f \<Rightarrow>
             if keep then let keep' = f (sk_name s) h d retries in (Inr keep', h @ [AskedExpired d retries keep'])
             else (Inr False, h))
      else (Inr keep, h))"

definition sink_keep :: "sink_config \<Rightarrow> msg_in \<Rightarrow> bool amqp" where
  "sink_keep s d = and_then (ask_too_much s d) (ask_expired s d)"

text \<open>The filters, in order; the first that says no has the message rejected.\<close>

fun run_filters :: "broker \<Rightarrow> nat \<Rightarrow> receiver_handler list \<Rightarrow> msg_in \<Rightarrow> msg_in option amqp" where
  "run_filters b i [] d h = (Inr (Some d), h)"
| "run_filters b i (f # fs) d h =
     (case f h d of (ok, d') \<Rightarrow>
        if ok then run_filters b (Suc i) fs d' (h @ [Filtered i True])
        else and_then (call_unit b (Nack (d_DeliveryTag d') False False)) (\<lambda>_. pure_amqp None)
               (h @ [Filtered i False]))"

definition sink_message :: "broker \<Rightarrow> sink_config \<Rightarrow> (msg_in \<Rightarrow> unit amqp) \<Rightarrow> msg_in \<Rightarrow> unit amqp" where
  "sink_message b s handler d =
     and_then (sink_keep s d) (\<lambda>keep.
       if \<not> keep then call_unit b (Nack (d_DeliveryTag d) False False)
       else and_then (run_filters b 0 (sk_middleware s) (d\<lparr>d_RoutingKey := restoreRoutingKey d\<rparr>)) (\<lambda>passed.
         case passed of None \<Rightarrow> pure_amqp () | Some d' \<Rightarrow> handler d'))"

section \<open>ChannelReady: the loop\<close>

text \<open>
  What the \<open>select\<close> takes: a delivery, the closing of the stream, or the end of the context.
  The loop ends by \<open>return nil\<close> (\<open>Inr True\<close>), by an error (\<open>Inl\<close>), or is waiting (\<open>Inr False\<close>).
\<close>

datatype stream_event = StreamMsg msg_in | StreamClosed | CtxDone go_error

fun sink_loop :: "broker \<Rightarrow> sink_config \<Rightarrow> (msg_in \<Rightarrow> unit amqp) \<Rightarrow> stream_event list \<Rightarrow> bool amqp" where
  "sink_loop b s handler [] = pure_amqp False"
| "sink_loop b s handler (StreamMsg d # evs) =
     and_then (sink_message b s handler d) (\<lambda>_. sink_loop b s handler evs)"
| "sink_loop b s handler (StreamClosed # evs) = pure_amqp True"
| "sink_loop b s handler (CtxDone e # evs) = fail_amqp e"

definition sink_ChannelReady ::
    "broker \<Rightarrow> sink_config \<Rightarrow> (msg_in \<Rightarrow> unit amqp) \<Rightarrow> stream_event list \<Rightarrow> bool amqp" where
  "sink_ChannelReady b s handler evs =
     and_then (sink_setup b s) (\<lambda>_.
     and_then (run_ready 0 (sk_ready s)) (\<lambda>_.
     sink_loop b s handler evs))"

section \<open>TransactFunc\<close>

text \<open>
  The handler built around a user's transaction. \<open>rq\<close> is \<open>snk.requeue\<close>; the error of the final
  \<open>Ack\<close> or \<open>Nack\<close> is logged and dropped.
\<close>

type_synonym transaction = "history \<Rightarrow> msg_in \<Rightarrow> go_error option"

definition ignore_error :: "unit amqp \<Rightarrow> unit amqp" where
  "ignore_error m h = (Inr (), snd (m h))"

definition transact_handler ::
    "broker \<Rightarrow> (msg_in \<Rightarrow> go_error \<Rightarrow> unit amqp) option \<Rightarrow> transaction \<Rightarrow> msg_in \<Rightarrow> unit amqp" where
  "transact_handler b rq fn d h =
     (let err = fn h d; h1 = h @ [RanHandler d err]; tag = d_DeliveryTag d in
      case err of
        None \<Rightarrow> ignore_error (call_unit b (Ack tag False)) h1
      | Some e \<Rightarrow>
          (case rq of
             None \<Rightarrow> ignore_error (call_unit b (Nack tag False True)) h1
           | Some r \<Rightarrow>
               (case r d e h1 of
                  (Inr _, h2) \<Rightarrow> ignore_error (call_unit b (Ack tag False)) h2
                | (Inl _, h2) \<Rightarrow> ignore_error (call_unit b (Nack tag False True)) h2)))"

section \<open>The set-up as a plan\<close>

definition sink_dead_plan :: "sink_config \<Rightarrow> amqp_call list" where
  "sink_dead_plan s =
     (if sk_deadExchange s \<noteq> '''' then [ExchangeDeclare (sk_deadExchange s) ''direct'' True False False False None] else []) @
     (if sk_deadQueue s \<noteq> '''' then [QueueDeclare (sk_deadQueue s) True False False False None] else []) @
     (if sk_deadExchange s \<noteq> '''' \<and> sk_deadQueue s \<noteq> ''''
      then [QueueBind (sk_deadQueue s) (sk_deadQueue s) (sk_deadExchange s) False None] else [])"

definition sink_declare :: "sink_config \<Rightarrow> amqp_call" where
  "sink_declare s = QueueDeclare (sk_queueName s) (sk_queueName s \<noteq> '''') (sk_queueName s = '''') False False (sk_attrs s)"

definition sink_bind_plan :: "string \<Rightarrow> sink_config \<Rightarrow> amqp_call list" where
  "sink_bind_plan queue s =
     concat (map (\<lambda>exc. ExchangeDeclare (ex_name exc) (ex_kind exc) True False False False (ex_attrs exc) #
       map (\<lambda>key. QueueBind queue key (ex_name exc) False None) (ex_binding exc)) (sk_bindings s)) @
     [Consume queue '''' (sk_autoAck s) False False False None]"

lemma guarded_call: "guarded c (call_unit b k) = run_plan b (if c then [k] else [])"
proof (cases c)
  case False
  then show ?thesis by (intro ext) (simp add: guarded_def pure_amqp_def)
qed (simp add: guarded_def run_plan_single)

lemma sink_dead_setup_plan: "sink_dead_setup b s = run_plan b (sink_dead_plan s)"
  by (simp only: sink_dead_setup_def sink_dead_plan_def guarded_call run_plan_append)

lemma sink_bind_exchange_plan: "sink_bind_exchange b q exc \<equiv>
    run_plan b (ExchangeDeclare (ex_name exc) (ex_kind exc) True False False False (ex_attrs exc) #
      map (\<lambda>key. QueueBind q key (ex_name exc) False None) (ex_binding exc))"
  by (simp only: sink_bind_exchange_def for_each_call_unit run_plan_Cons)

lemma sink_setup_plan: "sink_setup b s =
    and_then (run_plan b (sink_dead_plan s)) (\<lambda>_.
    and_then (do_call b (sink_declare s)) (\<lambda>q.
    and_then (run_plan b (sink_bind_plan q s)) (\<lambda>_. pure_amqp q)))"
  unfolding sink_setup_def sink_dead_setup_plan sink_declare_def sink_bind_plan_def
  by (simp only: sink_bind_exchange_plan [abs_def] for_each_run_plan run_plan_append run_plan_single and_then_assoc)

lemma carries_out_Inr: "carries_out (Inr x, h') h plan \<longleftrightarrow> (\<exists>evs. h' = h @ evs \<and> calls_of evs = plan \<and> succeeded evs)"
  by (simp add: carries_out_def)

lemma carries_out_Inl: "carries_out (Inl e, h') h plan \<longleftrightarrow>
    (\<exists>evs n. h' = h @ evs \<and> n < length plan \<and> calls_of evs = take (Suc n) plan \<and>
       last evs = Did (plan ! n) (Inl e) \<and> evs \<noteq> [] \<and> succeeded (butlast evs))"
  by (auto simp: carries_out_def)

text \<open>Carrying out a first plan, then a second one.\<close>

lemma carries_out_prefix: "carries_out (Inl e, h') h plan \<Longrightarrow> carries_out (Inl e, h') h (plan @ rest)"
  unfolding carries_out_Inl by (fastforce simp: nth_append)

lemma carries_out_then:
  assumes "carries_out (Inr x, h1) h plan" "carries_out (r, h') h1 rest"
  shows "carries_out (r, h') h (plan @ rest)"
proof -
  obtain evs where evs: "h1 = h @ evs" "calls_of evs = plan" "succeeded evs"
    using assms(1) by (auto simp: carries_out_Inr)
  have len: "length evs = length plan"
  proof -
    have "succeeded es \<Longrightarrow> length (calls_of es) = length es" for es
      by (induction es) (auto simp: succeeded_def calls_of_def split: event.splits)
    with evs show ?thesis by metis
  qed
  show ?thesis
  proof (cases r)
    case (Inr y)
    with assms(2) evs show ?thesis by (auto simp: carries_out_Inr)
  next
    case (Inl e)
    with assms(2) obtain evs' n where "h' = h1 @ evs'" "n < length rest" "calls_of evs' = take (Suc n) rest"
      "last evs' = Did (rest ! n) (Inl e)" "evs' \<noteq> []" "succeeded (butlast evs')"
      by (auto simp: carries_out_Inl)
    with evs len Inl show ?thesis
      by (auto simp: carries_out_Inl butlast_append intro!: exI [of _ "evs @ evs'"] exI [of _ "length plan + n"])
  qed
qed

lemma carries_out_call: "carries_out (do_call b c h) h [c]"
  by (cases "b h c") (auto simp: carries_out_def do_call_def Let_def)

lemma carries_out_result: "carries_out (Inr x, h') h plan \<Longrightarrow> carries_out (Inr y, h') h plan"
  by (simp add: carries_out_Inr)

lemma carries_out_error: "carries_out (Inl e :: go_error + 'a, h') h plan \<Longrightarrow> carries_out (Inl e :: go_error + 'b, h') h plan"
  by (simp add: carries_out_Inl)

section \<open>Properties of the set-up\<close>

text \<open>
  C13: \<open>ChannelReady\<close> sets the sink up in one fixed order: dead-letter exchange, queue and
  binding as configured, the sink's queue, each exchange with its bindings to the queue's name
  as the broker returned it, and the consumer. It returns the first error, having done exactly
  the calls up to the failing one; without error it has done them all.
\<close>

theorem sink_setup_carries_out:
  "\<exists>q. carries_out (sink_setup b s h) h (sink_dead_plan s @ [sink_declare s] @ sink_bind_plan q s) \<and>
     (case fst (sink_setup b s h) of Inr q' \<Rightarrow> q' = q | Inl _ \<Rightarrow> True)"
proof -
  obtain r1 h1 where 1: "run_plan b (sink_dead_plan s) h = (r1, h1)" by (meson surj_pair)
  note c1 = run_plan_carries_out [of b "sink_dead_plan s" h, unfolded 1]
  show ?thesis
  proof (cases r1)
    case (Inl e)
    with 1 c1 show ?thesis by (auto simp: sink_setup_plan and_then_def intro: carries_out_prefix)
  next
    case (Inr u)
    obtain r2 h2 where 2: "do_call b (sink_declare s) h1 = (r2, h2)" by (meson surj_pair)
    note c2 = carries_out_call [of b "sink_declare s" h1, unfolded 2]
    show ?thesis
    proof (cases r2)
      case (Inl e)
      have "carries_out (Inl e, h2) h (sink_dead_plan s @ [sink_declare s] @ sink_bind_plan q s)" for q
        using carries_out_prefix [OF carries_out_then [OF c1 [unfolded Inr] c2 [unfolded Inl]]] by simp
      with 1 2 Inr Inl show ?thesis by (auto simp: sink_setup_plan and_then_def)
    next
      case (Inr q)
      obtain r3 h3 where 3: "run_plan b (sink_bind_plan q s) h2 = (r3, h3)" by (meson surj_pair)
      note c3 = run_plan_carries_out [of b "sink_bind_plan q s" h2, unfolded 3]
      have all: "carries_out (r3, h3) h (sink_dead_plan s @ [sink_declare s] @ sink_bind_plan q s)"
        using carries_out_then [OF carries_out_then [OF c1 [unfolded \<open>r1 = Inr u\<close>] c2 [unfolded Inr]] c3] by simp
      with 1 2 3 Inr \<open>r1 = Inr u\<close> show ?thesis
        by (intro exI [of _ q]) (cases r3; auto simp: sink_setup_plan and_then_def pure_amqp_def intro: carries_out_result carries_out_error)
    qed
  qed
qed

section \<open>Properties of the retry limits\<close>

definition retry_warned :: "sink_config \<Rightarrow> msg_in \<Rightarrow> bool" where
  "retry_warned s d \<longleftrightarrow> sk_tooMuch s \<noteq> None \<and> sint (sk_threshold s) \<le> sint (getRedelivery d)"

definition retry_expired :: "sink_config \<Rightarrow> msg_in \<Rightarrow> bool" where
  "retry_expired s d \<longleftrightarrow> 0 \<le> sint (sk_retries s) \<and> sint (sk_retries s) < sint (getRedelivery d)"

text \<open>The answers of the two handlers; without an expired handler the answer is to drop.\<close>

definition warned_answer :: "sink_config \<Rightarrow> msg_in \<Rightarrow> history \<Rightarrow> bool" where
  "warned_answer s d h = (case sk_tooMuch s of None \<Rightarrow> True | Some f \<Rightarrow> f (sk_name s) h d (getRedelivery d))"

definition expired_answer :: "sink_config \<Rightarrow> msg_in \<Rightarrow> history \<Rightarrow> bool" where
  "expired_answer s d h = (case sk_expired s of None \<Rightarrow> False | Some f \<Rightarrow> f (sk_name s) h d (getRedelivery d))"

definition warning_asked :: "sink_config \<Rightarrow> msg_in \<Rightarrow> history \<Rightarrow> history" where
  "warning_asked s d h = h @ (if retry_warned s d then [AskedTooMuch d (getRedelivery d) (warned_answer s d h)] else [])"

definition sink_verdict :: "sink_config \<Rightarrow> msg_in \<Rightarrow> history \<Rightarrow> bool" where
  "sink_verdict s d h \<longleftrightarrow>
     (\<not> retry_warned s d \<or> warned_answer s d h) \<and>
     (\<not> retry_expired s d \<or> expired_answer s d (warning_asked s d h))"

definition verdict_events :: "sink_config \<Rightarrow> msg_in \<Rightarrow> history \<Rightarrow> history" where
  "verdict_events s d h = (let h1 = warning_asked s d h in
     h1 @ (if retry_expired s d \<and> sk_expired s \<noteq> None \<and> (\<not> retry_warned s d \<or> warned_answer s d h)
           then [AskedExpired d (getRedelivery d) (expired_answer s d h1)] else []))"

lemma ask_too_much_verdict: "ask_too_much s d h =
    (Inr (\<not> retry_warned s d \<or> warned_answer s d h), warning_asked s d h)"
  by (simp add: ask_too_much_def retry_warned_def warned_answer_def warning_asked_def Let_def split: option.split)

lemma ask_expired_verdict: "ask_expired s d keep h =
    (Inr (keep \<and> (\<not> retry_expired s d \<or> expired_answer s d h)),
     h @ (if retry_expired s d \<and> sk_expired s \<noteq> None \<and> keep
          then [AskedExpired d (getRedelivery d) (expired_answer s d h)] else []))"
  by (auto simp: ask_expired_def retry_expired_def expired_answer_def Let_def split: option.split)

text \<open>
  A delivery is kept exactly when the threshold handler, where one is set and the threshold
  is reached, says so and, where the limit is passed, an expired handler is set and says so too;
  a negative limit means none. The expired handler is not asked once the threshold handler said
  to drop the message.
\<close>

lemma sink_keep_verdict: "sink_keep s d h = (Inr (sink_verdict s d h), verdict_events s d h)"
  by (simp add: sink_keep_def and_then_def ask_too_much_verdict ask_expired_verdict sink_verdict_def
      verdict_events_def Let_def)

lemma verdict_events_calls: "\<exists>evs. verdict_events s d h = h @ evs \<and> calls_of evs = []"
  by (simp add: verdict_events_def warning_asked_def Let_def calls_of_def)

lemma verdict_events_dispositions [simp]: "dispositions tag (verdict_events s d h) = dispositions tag h"
  by (simp add: verdict_events_def warning_asked_def Let_def)

lemma sink_message_verdict: "sink_message b s handler d h =
    (if \<not> sink_verdict s d h then call_unit b (Nack (d_DeliveryTag d) False False) (verdict_events s d h)
     else and_then (run_filters b 0 (sk_middleware s) (d\<lparr>d_RoutingKey := restoreRoutingKey d\<rparr>)) (\<lambda>passed.
         case passed of None \<Rightarrow> pure_amqp () | Some d' \<Rightarrow> handler d') (verdict_events s d h))"
  by (simp add: sink_message_def and_then_def sink_keep_verdict)

text \<open>
  A delivery that is not kept is rejected without requeueing and nothing else happens to
  it: no filter and no handler sees it, and the loop ends only if the broker refuses the
  rejection.
\<close>

lemma dropped_delivery_is_rejected:
  assumes "\<not> sink_verdict s d h"
  shows "\<exists>asked r. sink_message b s handler d h =
      ((case r of Inl e \<Rightarrow> Inl e | Inr _ \<Rightarrow> Inr ()), h @ asked @ [Did (Nack (d_DeliveryTag d) False False) r]) \<and>
    calls_of asked = []"
proof -
  obtain asked where "verdict_events s d h = h @ asked" "calls_of asked = []"
    using verdict_events_calls by blast
  with assms show ?thesis
    by (auto simp: sink_message_verdict amqp_defs Let_def split: sum.split)
qed

text \<open>A delivery that has been through the dead-letter exchange \<open>n\<close> times.\<close>

definition tired_delivery :: "64 word \<Rightarrow> msg_in" where
  "tired_delivery n = demo_delivery\<lparr>d_Headers :=
     Some [(''x-death'', VArray [VTable [(''count'', VInt64 n), (''routing-keys'', VArray [VString ''old''])]])]\<rparr>"

definition plain_defaults :: sink_defaults where
  "plain_defaults = \<lparr>df_retries = 10, df_expired = None, df_tooMuch = None, df_threshold = 0, df_verbose = True\<rparr>"

section \<open>Properties of transactions\<close>

text \<open>Filters change what they like, but the delivery stays the one that came.\<close>

definition keeps_tag :: "receiver_handler \<Rightarrow> bool" where
  "keeps_tag f \<longleftrightarrow> (\<forall>h d. d_DeliveryTag (snd (f h d)) = d_DeliveryTag d)"

lemma keeps_tagD: "keeps_tag f \<Longrightarrow> f h d = (ok, d') \<Longrightarrow> d_DeliveryTag d' = d_DeliveryTag d"
  by (metis keeps_tag_def snd_conv)

lemma call_unit_snd: "snd (call_unit b c h) = h @ [Did c (b h c)]"
  by (simp add: amqp_defs Let_def split: sum.split)

lemma ignore_error_call: "ignore_error (call_unit b c) h = (Inr (), h @ [Did c (b h c)])"
  by (simp add: ignore_error_def call_unit_snd)

lemma run_filters_disposes:
  assumes "run_filters b i fs d h = (r, h')" "\<forall>f \<in> set fs. keeps_tag f" "d_DeliveryTag d = tag"
  shows "case r of Inr (Some d') \<Rightarrow> d_DeliveryTag d' = tag \<and> dispositions tag h' = dispositions tag h
    | _ \<Rightarrow> dispositions tag h' = dispositions tag h + 1"
  using assms
proof (induction fs arbitrary: i d h)
  case Nil
  then show ?case by auto
next
  case (Cons f fs)
  obtain ok d' where f: "f h d = (ok, d')" by (meson surj_pair)
  with Cons.prems(2,3) have tag: "d_DeliveryTag d' = tag" using keeps_tagD by fastforce
  show ?case
  proof (cases ok)
    case True
    with Cons.prems f have "run_filters b (Suc i) fs d' (h @ [Filtered i True]) = (r, h')" by simp
    from Cons.IH [OF this _ tag] Cons.prems(2) show ?thesis by (auto split: sum.splits option.splits)
  next
    case False
    with Cons.prems f tag show ?thesis
      by (auto simp: amqp_defs Let_def split: sum.splits)
  qed
qed

context requeuer
begin

lemma transact_disposes_once:
  "dispositions (d_DeliveryTag d) (snd (transact_handler b (Some requeue_with_error) fn d h)) =
     dispositions (d_DeliveryTag d) h + 1"
proof (cases "fn h d")
  case None
  then show ?thesis by (simp add: transact_handler_def ignore_error_call Let_def)
next
  case (Some e)
  obtain r h2 where rh: "requeue_with_error d e (h @ [RanHandler d (Some e)]) = (r, h2)" by (meson surj_pair)
  then have "dispositions (d_DeliveryTag d) h2 = dispositions (d_DeliveryTag d) h"
    using requeue_disposes_nothing [of "d_DeliveryTag d" d e "h @ [RanHandler d (Some e)]"] by simp
  with Some rh show ?thesis
    by (cases r) (simp_all add: transact_handler_def ignore_error_call Let_def)
qed

lemma transact_outcome:
  assumes "transact_handler b (Some requeue_with_error) fn d h = (r, h')"
  shows "\<exists>a. last h' = Did (Ack (d_DeliveryTag d) False) a \<and>
        (fn h d = None \<or> (\<exists>e. fn h d = Some e \<and> stored d e h'))
     \<or> last h' = Did (Nack (d_DeliveryTag d) False True) a \<and> fn h d \<noteq> None"
proof (cases "fn h d")
  case None
  with assms show ?thesis by (auto simp: transact_handler_def ignore_error_call Let_def)
next
  case (Some e)
  obtain x h2 where rh: "requeue_with_error d e (h @ [RanHandler d (Some e)]) = (x, h2)" by (meson surj_pair)
  show ?thesis
  proof (cases x)
    case (Inl e')
    with Some rh assms show ?thesis by (auto simp: transact_handler_def ignore_error_call Let_def)
  next
    case (Inr u)
    with rh have "stored d e (h2 @ es)" for es using requeue_stores stored_extend by simp
    with Some rh Inr assms show ?thesis by (auto simp: transact_handler_def ignore_error_call Let_def)
  qed
qed

end

text \<open>The requeue of a sink as the model of \<open>requeuer.go\<close> provides it, or none.\<close>

definition sink_requeue ::
    "broker \<Rightarrow> (string \<times> requeue_config \<times> rq_run) option \<Rightarrow> (msg_in \<Rightarrow> go_error \<Rightarrow> unit amqp) option" where
  "sink_requeue b rq = map_option (\<lambda>(queue, rc, run). RequeueWithError_run b queue rc run) rq"

text \<open>
  C14: A transaction loses no message. The handler's last act is to acknowledge the delivery,
  which it does only if the transaction succeeded or a copy of the delivery, with the error in
  its headers, was accepted by the broker for the requeue queue; otherwise it gives the
  delivery back to its queue. It does the one or the other exactly once.
\<close>

theorem transact_loses_nothing:
  assumes "transact_handler b (sink_requeue b rq) fn d h = (r, h')"
  shows "dispositions (d_DeliveryTag d) h' = dispositions (d_DeliveryTag d) h + 1 \<and>
    (\<exists>a. last h' = Did (Ack (d_DeliveryTag d) False) a \<and>
        (fn h d = None \<or> (\<exists>e queue rc run. fn h d = Some e \<and> rq = Some (queue, rc, run) \<and> copy_stored queue rc d e h'))
     \<or> last h' = Did (Nack (d_DeliveryTag d) False True) a \<and> fn h d \<noteq> None)"
proof (cases rq)
  case None
  with assms show ?thesis
    by (cases "fn h d") (auto simp: sink_requeue_def transact_handler_def ignore_error_call Let_def)
next
  case (Some q)
  obtain queue rc run where q: "q = (queue, rc, run)" by (cases q) auto
  with Some have req: "sink_requeue b rq = Some (RequeueWithError_run b queue rc run)"
    by (simp add: sink_requeue_def)
  then have "dispositions (d_DeliveryTag d) h' = dispositions (d_DeliveryTag d) h + 1"
    using assms rq.transact_disposes_once [of d b b queue rc run fn h] by simp
  moreover note rq.transact_outcome [OF assms [unfolded req]]
  ultimately show ?thesis using Some q by fastforce
qed

definition failing :: transaction where
  "failing h d = Some (Err ''oops'')"

theorem transact_loses_nothing_witness:
  "\<exists>r h'. transact_handler named_broker (sink_requeue named_broker (Some (''q/requeue'', newRequeue ''q'', Served)))
       failing demo_delivery [] = (r, h') \<and> dispositions 1 h' = 1 \<and>
     copy_stored ''q/requeue'' (newRequeue ''q'') demo_delivery (Err ''oops'') h'"
proof -
  let ?rq = "Some (''q/requeue'', newRequeue ''q'', Served)"
  obtain r h' where run: "transact_handler named_broker (sink_requeue named_broker ?rq) failing demo_delivery [] = (r, h')"
    by (meson surj_pair)
  have "\<exists>a. last h' = Did (Ack 1 False) a"
    using run by (auto simp: transact_handler_def sink_requeue_def failing_def RequeueWithError_run_def Requeue_run_def
        amqp_defs named_broker_def ignore_error_def demo_delivery_def Let_def)
  with transact_loses_nothing [OF run] run show ?thesis
    by (auto simp: failing_def demo_delivery_def)
qed

text \<open>
  C15: In a sink with a transaction every delivery the loop takes is acknowledged or rejected
  exactly once, whether its retries are exceeded, a filter turns it down, or the transaction
  runs (filters do not replace the delivery tag).
\<close>

theorem delivery_disposed_once:
  assumes "\<forall>f \<in> set (sk_middleware s). keeps_tag f"
  shows "dispositions (d_DeliveryTag d) (snd (sink_message b s (transact_handler b (sink_requeue b rq) fn) d h)) =
    dispositions (d_DeliveryTag d) h + 1"
proof (cases "sink_verdict s d h")
  case False
  then show ?thesis by (simp add: sink_message_verdict call_unit_snd)
next
  case True
  let ?d = "d\<lparr>d_RoutingKey := restoreRoutingKey d\<rparr>"
  obtain r h1 where fs: "run_filters b 0 (sk_middleware s) ?d (verdict_events s d h) = (r, h1)" by (meson surj_pair)
  note out = run_filters_disposes [OF fs assms, of "d_DeliveryTag d"]
  have "dispositions (d_DeliveryTag d') (snd (transact_handler b (sink_requeue b rq) fn d' h1)) =
      dispositions (d_DeliveryTag d') h1 + 1" for d' :: msg_in
  proof (cases rq)
    case None
    then show ?thesis
      by (cases "fn h1 d'") (auto simp: sink_requeue_def transact_handler_def ignore_error_call Let_def)
  next
    case (Some q)
    then show ?thesis using rq.transact_disposes_once by (cases q) (simp add: sink_requeue_def)
  qed
  then have "d_DeliveryTag d' = d_DeliveryTag d \<Longrightarrow>
      dispositions (d_DeliveryTag d) (snd (transact_handler b (sink_requeue b rq) fn d' h1)) =
      dispositions (d_DeliveryTag d) h1 + 1" for d' :: msg_in
    by metis
  with True fs out show ?thesis
    by (auto simp: sink_message_verdict and_then_def pure_amqp_def split: sum.splits option.splits)
qed

theorem delivery_disposed_once_witness:
  "dispositions 1 (snd (sink_message named_broker (newSink ''q'' plain_defaults)
      (transact_handler named_broker (sink_requeue named_broker None) failing) demo_delivery [])) = 1"
  using delivery_disposed_once [of "newSink ''q'' plain_defaults" demo_delivery named_broker None failing "[]"]
  by (simp add: newSink_def OnExpired_def OnTooMuchRetries_def demo_delivery_def plain_defaults_def Let_def)

end
