(* ===== verification/Certs.thy ===== *)
theory Certs
  imports Sink
begin

text \<open>
  \<open>certs.go\<close>, with \<open>WriterConfig.Sign\<close> and \<open>SinkConfig.Validate\<close>: loading a key or a certificate
  from PEM, the middleware that signs outgoing messages and the one that checks incoming ones.
  \<open>pem.Decode\<close>, the x509 parsers, SHA-512, RSA and the file system are arguments; what the code
  relies on of them is stated as the predicates \<open>pem_consumes\<close> and \<open>key_pair\<close>.
\<close>

section \<open>Loading keys and certificates\<close>

text \<open>
  \<open>pem.Decode\<close> returns the next block with its type and contents, or none, and the rest of the
  input. The parser of private keys returns an RSA key or a key of another kind.
\<close>

type_synonym pem_decode = "bytes \<Rightarrow> (string \<times> bytes) option \<times> bytes"

datatype 'k private_key = RsaKey 'k | OtherKey

text \<open>The parsers on one block, as the two \<open>switch\<close> statements use them.\<close>

definition parse_private_key :: "(bytes \<Rightarrow> go_error + 'k private_key) \<Rightarrow> bytes \<Rightarrow> go_error + 'k" where
  "parse_private_key parse block =
     (case parse block of
        Inl e \<Rightarrow> Inl (Wrapped e ''decode private key'')
      | Inr OtherKey \<Rightarrow> Inl (Err ''private key is not RSA PKS#8'')
      | Inr (RsaKey k) \<Rightarrow> Inr k)"

definition parse_certificate :: "(bytes \<Rightarrow> go_error + 'c) \<Rightarrow> bytes \<Rightarrow> go_error + 'c" where
  "parse_certificate parse block =
     (case parse block of Inl e \<Rightarrow> Inl (Wrapped e ''decode public key'') | Inr c \<Rightarrow> Inr c)"

text \<open>
  The loops over the blocks of a file. They end when the decoder finds no more blocks; a decoder
  that kept finding blocks would keep them running, which is the outer \<open>None\<close>.
\<close>

partial_function (option) loadPrivateKey ::
    "pem_decode \<Rightarrow> (bytes \<Rightarrow> go_error + 'k private_key) \<Rightarrow> bytes \<Rightarrow> (go_error + 'k) option" where
  "loadPrivateKey pem parse tail =
     (case pem tail of
        (None, _) \<Rightarrow> Some (Inl (Err ''private key not found''))
      | (Some (kind, block), rest) \<Rightarrow>
          if kind = ''PRIVATE KEY'' then Some (parse_private_key parse block)
          else loadPrivateKey pem parse rest)"

partial_function (option) loadCertificate ::
    "pem_decode \<Rightarrow> (bytes \<Rightarrow> go_error + 'c) \<Rightarrow> bytes \<Rightarrow> (go_error + 'c) option" where
  "loadCertificate pem parse tail =
     (case pem tail of
        (None, _) \<Rightarrow> Some (Inl (Err ''public key not found''))
      | (Some (kind, block), rest) \<Rightarrow>
          if kind = ''CERTIFICATE'' then Some (parse_certificate parse block)
          else loadCertificate pem parse rest)"

text \<open>\<open>errors.Wrapf\<close> on the error of a pair that holds a value only without error.\<close>

definition wrap_result :: "string \<Rightarrow> go_error + 'a \<Rightarrow> go_error + 'a" where
  "wrap_result what r = (case r of Inl e \<Rightarrow> Inl (Wrapped e what) | Inr x \<Rightarrow> Inr x)"

type_synonym read_file = "string \<Rightarrow> go_error + bytes"

definition loadPrivateKeyFile ::
    "read_file \<Rightarrow> pem_decode \<Rightarrow> (bytes \<Rightarrow> go_error + 'k private_key) \<Rightarrow> string \<Rightarrow> (go_error + 'k) option" where
  "loadPrivateKeyFile read pem parse path =
     (case read path of
        Inl e \<Rightarrow> Some (Inl (Wrapped e (''load content of '' @ path)))
      | Inr content \<Rightarrow> map_option (wrap_result (''private key from file '' @ path)) (loadPrivateKey pem parse content))"

definition loadCertificateFromFile ::
    "read_file \<Rightarrow> pem_decode \<Rightarrow> (bytes \<Rightarrow> go_error + 'c) \<Rightarrow> string \<Rightarrow> (go_error + 'c) option" where
  "loadCertificateFromFile read pem parse path =
     (case read path of
        Inl e \<Rightarrow> Some (Inl (Wrapped e (''load content of '' @ path)))
      | Inr content \<Rightarrow> map_option (wrap_result (''load certificate from file '' @ path)) (loadCertificate pem parse content))"

section \<open>The signer\<close>

text \<open>
  The constructors return the middleware together with the error; where there is an error the
  key in it is nil.
\<close>

record 'k message_signer =
  ms_header :: string
  ms_key :: "'k option"

definition sign :: "(bytes \<Rightarrow> bytes) \<Rightarrow> ('k \<Rightarrow> bytes \<Rightarrow> go_error + bytes) \<Rightarrow> bytes \<Rightarrow> 'k \<Rightarrow> go_error + bytes" where
  "sign sha512 rsa_sign contents key = rsa_sign key (sha512 contents)"

definition signer_Handle ::
    "(bytes \<Rightarrow> bytes) \<Rightarrow> ('k \<Rightarrow> bytes \<Rightarrow> go_error + bytes) \<Rightarrow> 'k message_signer \<Rightarrow> sender_handler" where
  "signer_Handle sha512 rsa_sign ms msg hp = (let contents = p_MessageId msg @ p_Body msg in
     case ms_key ms of
       None \<Rightarrow> Panic ''nil pointer dereference''
     | Some key \<Rightarrow>
         (case sign sha512 rsa_sign contents key of
            Inl e \<Rightarrow> Panic (error_text e)
          | Inr signature \<Rightarrow>
              (case header_put (ms_header ms) (VBytes signature) (msg, hp) of (msg', hp') \<Rightarrow> Value (True, msg', hp'))))"

definition signer_of :: "string \<Rightarrow> string \<Rightarrow> go_error + 'k \<Rightarrow> 'k message_signer \<times> go_error option" where
  "signer_of what header r =
     (case r of
        Inl e \<Rightarrow> (\<lparr>ms_header = header, ms_key = None\<rparr>, Some (Wrapped e what))
      | Inr k \<Rightarrow> (\<lparr>ms_header = header, ms_key = Some k\<rparr>, None))"

definition NewSigner ::
    "pem_decode \<Rightarrow> (bytes \<Rightarrow> go_error + 'k private_key) \<Rightarrow> bytes \<Rightarrow> string \<Rightarrow> ('k message_signer \<times> go_error option) option" where
  "NewSigner pem parse private_key header =
     map_option (signer_of ''create signer'' header) (loadPrivateKey pem parse private_key)"

definition NewSignerFromFile ::
    "read_file \<Rightarrow> pem_decode \<Rightarrow> (bytes \<Rightarrow> go_error + 'k private_key) \<Rightarrow> string \<Rightarrow> string \<Rightarrow>
     ('k message_signer \<times> go_error option) option" where
  "NewSignerFromFile read pem parse path header =
     map_option (signer_of ''create signer from file'' header) (loadPrivateKeyFile read pem parse path)"

definition DefaultSignatureHeader :: string where
  "DefaultSignatureHeader = ''X-Signature''"

definition writer_Sign ::
    "read_file \<Rightarrow> pem_decode \<Rightarrow> (bytes \<Rightarrow> go_error + 'k private_key) \<Rightarrow> (bytes \<Rightarrow> bytes) \<Rightarrow>
     ('k \<Rightarrow> bytes \<Rightarrow> go_error + bytes) \<Rightarrow> string \<Rightarrow> writer_config \<Rightarrow> writer_config outcome option" where
  "writer_Sign read pem parse sha512 rsa_sign path wc =
     map_option (\<lambda>(mw, err). case err of
         Some e \<Rightarrow> Panic (error_text e)
       | None \<Rightarrow> Value (writer_Use (signer_Handle sha512 rsa_sign mw) wc))
     (NewSignerFromFile read pem parse path DefaultSignatureHeader)"

section \<open>The validator\<close>

record 'c message_validator =
  mv_header :: string
  mv_cert :: "'c option"

text \<open>
  \<open>check\<close> is \<open>Certificate.CheckSignature\<close> for SHA-512 with RSA; it hashes the data itself.
\<close>

definition validator_Handle ::
    "('c \<Rightarrow> bytes \<Rightarrow> bytes \<Rightarrow> go_error option) \<Rightarrow> 'c message_validator \<Rightarrow> msg_in \<Rightarrow> bool outcome" where
  "validator_Handle check mv msg =
     (case d_Headers msg of
        None \<Rightarrow> Value False
      | Some headers \<Rightarrow>
          (case map_of headers (mv_header mv) of
             None \<Rightarrow> Value False
           | Some (VBytes signature) \<Rightarrow>
               (let contents = d_MessageId msg @ d_Body msg in
                case mv_cert mv of
                  None \<Rightarrow> Panic ''nil pointer dereference''
                | Some cert \<Rightarrow> Value (check cert contents signature = None))
           | Some _ \<Rightarrow> Value False))"

definition validator_of :: "string \<Rightarrow> string \<Rightarrow> go_error + 'c \<Rightarrow> 'c message_validator \<times> go_error option" where
  "validator_of what header r =
     (case r of
        Inl e \<Rightarrow> (\<lparr>mv_header = header, mv_cert = None\<rparr>, Some (Wrapped e what))
      | Inr c \<Rightarrow> (\<lparr>mv_header = header, mv_cert = Some c\<rparr>, None))"

definition NewCertValidator ::
    "pem_decode \<Rightarrow> (bytes \<Rightarrow> go_error + 'c) \<Rightarrow> bytes \<Rightarrow> string \<Rightarrow> ('c message_validator \<times> go_error option) option" where
  "NewCertValidator pem parse cert header =
     map_option (validator_of ''create validator'' header) (loadCertificate pem parse cert)"

definition NewCertValidatorFromFile ::
    "read_file \<Rightarrow> pem_decode \<Rightarrow> (bytes \<Rightarrow> go_error + 'c) \<Rightarrow> string \<Rightarrow> string \<Rightarrow>
     ('c message_validator \<times> go_error option) option" where
  "NewCertValidatorFromFile read pem parse path header =
     map_option (validator_of ''create validator from file'' header) (loadCertificateFromFile read pem parse path)"

text \<open>
  The validator as a filter of a sink, for one that has a certificate: it never panics and leaves
  the message as it is. \<open>Validate\<close> installs no other: without a certificate there is an error.
\<close>

definition validator_filter ::
    "('c \<Rightarrow> bytes \<Rightarrow> bytes \<Rightarrow> go_error option) \<Rightarrow> string \<Rightarrow> 'c \<Rightarrow> receiver_handler" where
  "validator_filter check header cert h msg =
     (validator_Handle check \<lparr>mv_header = header, mv_cert = Some cert\<rparr> msg = Value True, msg)"

lemma validator_filter_exact:
  "validator_Handle check \<lparr>mv_header = header, mv_cert = Some cert\<rparr> msg = Value (fst (validator_filter check header cert h msg))"
  by (auto simp: validator_filter_def validator_Handle_def Let_def split: option.split amqp_value.split)

lemma validator_of_cert: "validator_of what header r = (mv, None) \<Longrightarrow> \<exists>cert. mv_cert mv = Some cert"
  by (auto simp: validator_of_def split: sum.splits)

definition sink_Validate ::
    "read_file \<Rightarrow> pem_decode \<Rightarrow> (bytes \<Rightarrow> go_error + 'c) \<Rightarrow> ('c \<Rightarrow> bytes \<Rightarrow> bytes \<Rightarrow> go_error option) \<Rightarrow>
     string \<Rightarrow> sink_config \<Rightarrow> sink_config outcome option" where
  "sink_Validate read pem parse check path snk =
     map_option (\<lambda>(mv, err). case err of
         Some e \<Rightarrow> Panic (error_text e)
       | None \<Rightarrow> (case mv_cert mv of
             Some cert \<Rightarrow> Value (sink_Use (validator_filter check (mv_header mv) cert) snk)
           | None \<Rightarrow> Panic ''nil pointer dereference''))
     (NewCertValidatorFromFile read pem parse path DefaultSignatureHeader)"

section \<open>Properties of loading\<close>

text \<open>
  The documented behaviour of \<open>pem.Decode\<close> the loops rely on: a block that is found is taken
  from the input. \<open>pem_file\<close> lists the blocks of a file.
\<close>

definition pem_consumes :: "pem_decode \<Rightarrow> bool" where
  "pem_consumes pem \<longleftrightarrow> (\<forall>t blk rest. pem t = (Some blk, rest) \<longrightarrow> length rest < length t)"

inductive pem_file :: "pem_decode \<Rightarrow> bytes \<Rightarrow> (string \<times> bytes) list \<Rightarrow> bool" for pem :: pem_decode where
  pem_end: "pem t = (None, rest) \<Longrightarrow> pem_file pem t []"
| pem_block: "pem t = (Some blk, rest) \<Longrightarrow> pem_file pem rest blks \<Longrightarrow> pem_file pem t (blk # blks)"

inductive_simps pem_file_simps: "pem_file pem t []" "pem_file pem t (blk # blks)"

lemma pem_file_total: "pem_consumes pem \<Longrightarrow> \<exists>blks. pem_file pem t blks"
proof (induction t rule: measure_induct_rule [where f = length])
  case (less t)
  obtain found rest where pem: "pem t = (found, rest)" by (meson surj_pair)
  show ?case
  proof (cases found)
    case None
    with pem show ?thesis by (auto intro: pem_file.intros)
  next
    case (Some blk)
    with pem less.prems have "length rest < length t" unfolding pem_consumes_def by blast
    from less.IH [OF this less.prems] obtain blks where "pem_file pem rest blks" ..
    with pem Some show ?thesis by (auto intro: pem_file.intros)
  qed
qed

lemma pem_file_unique: "pem_file pem t xs \<Longrightarrow> pem_file pem t ys \<Longrightarrow> ys = xs"
proof (induction arbitrary: ys rule: pem_file.induct)
  case (pem_end t rest)
  from pem_end(2) show ?case by cases (use pem_end(1) in simp_all)
next
  case (pem_block t blk rest blks)
  from pem_block(4) show ?case by cases (use pem_block(1,3) in auto)
qed

definition first_block :: "string \<Rightarrow> (string \<times> bytes) list \<Rightarrow> bytes option" where
  "first_block kind blks = map_option snd (List.find (\<lambda>blk. fst blk = kind) blks)"

lemma loadPrivateKey_blocks: "pem_file pem t blks \<Longrightarrow> loadPrivateKey pem parse t =
    Some (case first_block ''PRIVATE KEY'' blks of
        None \<Rightarrow> Inl (Err ''private key not found'') | Some block \<Rightarrow> parse_private_key parse block)"
  by (induction rule: pem_file.induct; subst loadPrivateKey.simps) (auto simp: first_block_def split: prod.split)

lemma loadCertificate_blocks: "pem_file pem t blks \<Longrightarrow> loadCertificate pem parse t =
    Some (case first_block ''CERTIFICATE'' blks of
        None \<Rightarrow> Inl (Err ''public key not found'') | Some block \<Rightarrow> parse_certificate parse block)"
  by (induction rule: pem_file.induct; subst loadCertificate.simps) (auto simp: first_block_def split: prod.split)

text \<open>
  C20: Loading a key or a certificate returns on every input. It depends on the first block of the
  right type alone, whatever other blocks stand before or after it: its parser's verdict is the
  verdict of the file, and there is an error of its own where there is no such block.
\<close>

theorem loaders_use_first_block:
  assumes "pem_consumes pem"
  shows "\<exists>blks. pem_file pem content blks \<and>
    loadPrivateKey pem parse_key content = Some (case first_block ''PRIVATE KEY'' blks of
        None \<Rightarrow> Inl (Err ''private key not found'') | Some block \<Rightarrow> parse_private_key parse_key block) \<and>
    loadCertificate pem parse_cert content = Some (case first_block ''CERTIFICATE'' blks of
        None \<Rightarrow> Inl (Err ''public key not found'') | Some block \<Rightarrow> parse_certificate parse_cert block)"
  using pem_file_total [OF assms, of content] loadPrivateKey_blocks loadCertificate_blocks by blast

text \<open>A toy decoder: a letter is a block, its kind told by the letter.\<close>

definition toy_pem :: pem_decode where
  "toy_pem t = (case t of
     [] \<Rightarrow> (None, [])
   | c # cs \<Rightarrow> (Some (if c = CHR ''k'' then ''PRIVATE KEY'' else if c = CHR ''c'' then ''CERTIFICATE'' else ''OTHER'', [c]), cs))"

theorem loaders_use_first_block_witness:
  "loadPrivateKey toy_pem (\<lambda>b. Inr (RsaKey b)) ''xck'' = Some (Inr ''k'') \<and>
   loadCertificate toy_pem (\<lambda>b. Inr b) ''xck'' = Some (Inr ''c'')"
proof -
  have pem: "pem_consumes toy_pem" by (auto simp: pem_consumes_def toy_pem_def split: list.splits)
  have "pem_file toy_pem ''xck'' [(''OTHER'', ''x''), (''CERTIFICATE'', ''c''), (''PRIVATE KEY'', ''k'')]"
    by (simp add: pem_file_simps toy_pem_def)
  then have unique: "pem_file toy_pem ''xck'' blks \<Longrightarrow>
      blks = [(''OTHER'', ''x''), (''CERTIFICATE'', ''c''), (''PRIVATE KEY'', ''k'')]" for blks
    by (rule pem_file_unique)
  from loaders_use_first_block [OF pem, where content = "''xck''"
      and parse_key = "\<lambda>b. Inr (RsaKey b)" and parse_cert = "\<lambda>b. Inr b"]
  obtain blks where blks: "pem_file toy_pem ''xck'' blks"
    "loadPrivateKey toy_pem (\<lambda>b. Inr (RsaKey b)) ''xck'' = Some (case first_block ''PRIVATE KEY'' blks of
        None \<Rightarrow> Inl (Err ''private key not found'') | Some block \<Rightarrow> parse_private_key (\<lambda>b. Inr (RsaKey b)) block)"
    "loadCertificate toy_pem (\<lambda>b. Inr b) ''xck'' = Some (case first_block ''CERTIFICATE'' blks of
        None \<Rightarrow> Inl (Err ''public key not found'') | Some block \<Rightarrow> parse_certificate (\<lambda>b. Inr b) block)"
    by blast
  from unique [OF blks(1)] blks(2,3) show ?thesis
    by (simp add: first_block_def parse_private_key_def parse_certificate_def)
qed

section \<open>Properties of signatures\<close>

text \<open>
  A certificate matches a private key: exactly the signature made with the key passes the
  check. PKCS\#1 v1.5 signatures are deterministic, so there is one for each message.
\<close>

definition key_pair ::
    "(bytes \<Rightarrow> bytes) \<Rightarrow> ('k \<Rightarrow> bytes \<Rightarrow> go_error + bytes) \<Rightarrow> ('c \<Rightarrow> bytes \<Rightarrow> bytes \<Rightarrow> go_error option) \<Rightarrow> 'k \<Rightarrow> 'c \<Rightarrow> bool" where
  "key_pair sha512 rsa_sign check key cert \<longleftrightarrow>
     (\<forall>contents s. check cert contents s = None \<longleftrightarrow> rsa_sign key (sha512 contents) = Inr s)"

text \<open>
  What brokers and networks keep of a message: its identifier, its body and the headers it was
  sent with (they may add headers).
\<close>

definition relayed :: "msg_out \<Rightarrow> msg_in \<Rightarrow> bool" where
  "relayed p d \<longleftrightarrow> d_MessageId d = p_MessageId p \<and> d_Body d = p_Body p \<and>
     (\<forall>k v. map_get (p_Headers p) k = Some v \<longrightarrow> map_get (d_Headers d) k = Some v)"

lemma validator_Handle_map_get: "validator_Handle check \<lparr>mv_header = hdr, mv_cert = Some cert\<rparr> d =
    Value (case map_get (d_Headers d) hdr of
      Some (VBytes s) \<Rightarrow> check cert (d_MessageId d @ d_Body d) s = None | _ \<Rightarrow> False)"
  by (auto simp: validator_Handle_def map_get_def Let_def split: option.split amqp_value.split)

lemma validator_Handle_routing_key [simp]:
  "validator_Handle check mv (d\<lparr>d_RoutingKey := k\<rparr>) = validator_Handle check mv d"
  by (simp add: validator_Handle_def Let_def cong: option.case_cong amqp_value.case_cong)

lemma processMessage_append: "processMessage (fs @ gs) p hp = bind_outcome (processMessage fs p hp)
    (\<lambda>(ok, p', hp'). if ok then processMessage gs p' hp' else Value (False, p', hp'))"
proof (induction fs arbitrary: p hp)
  case (Cons f fs)
  then show ?case by (cases "f p hp") auto
qed simp

lemma signer_Handle_signs:
  assumes "signer_Handle sha512 rsa_sign \<lparr>ms_header = hdr, ms_key = Some key\<rparr> p hp = Value (ok, p', hp')"
  shows "ok \<and> p_MessageId p' = p_MessageId p \<and> p_Body p' = p_Body p \<and>
    (\<exists>s. map_get (p_Headers (wire hp' p')) hdr = Some (VBytes s) \<and>
         rsa_sign key (sha512 (p_MessageId p @ p_Body p)) = Inr s)"
  using assms header_put_keeps [of hdr _ p hp p' hp'] header_put_wire [of hdr _ p hp p' hp' hdr]
  by (auto simp: signer_Handle_def sign_def Let_def simp del: wire_fields split: sum.splits prod.splits)

lemma signed_last_validates:
  assumes "key_pair sha512 rsa_sign check key cert"
    and "processMessage (fs @ [signer_Handle sha512 rsa_sign \<lparr>ms_header = hdr, ms_key = Some key\<rparr>]) p hp
           = Value (True, p', hp')"
    and "relayed (wire hp' p') d"
  shows "validator_Handle check \<lparr>mv_header = hdr, mv_cert = Some cert\<rparr> d = Value True"
proof -
  from assms(2) obtain p1 hp1 where
    "signer_Handle sha512 rsa_sign \<lparr>ms_header = hdr, ms_key = Some key\<rparr> p1 hp1 = Value (True, p', hp')"
    by (fastforce simp: processMessage_append bind_outcome_Value_iff split: if_splits)
  from signer_Handle_signs [OF this] assms(1,3) show ?thesis
    by (auto simp: validator_Handle_map_get relayed_def key_pair_def simp del: wire_fields(1))
qed

text \<open>
  C16: Sign and validate: where the signer is the last middleware of a writer and the certificate
  matches its key, every message the middlewares let through passes the validator when it
  arrives, whatever headers the broker added.
\<close>

theorem signed_message_validates:
  assumes "key_pair sha512 rsa_sign check key cert"
    and "processMessage (fs @ [signer_Handle sha512 rsa_sign \<lparr>ms_header = hdr, ms_key = Some key\<rparr>]) p hp
           = Value (True, p', hp')"
    and "relayed (wire hp' p') d"
  shows "validator_Handle check \<lparr>mv_header = hdr, mv_cert = Some cert\<rparr> d = Value True"
  using assms by (rule signed_last_validates)

text \<open>A toy scheme: the signature is the message itself with a mark in front.\<close>

definition toy_sign :: "char \<Rightarrow> bytes \<Rightarrow> go_error + bytes" where
  "toy_sign key contents = Inr (key # contents)"

definition toy_check :: "char \<Rightarrow> bytes \<Rightarrow> bytes \<Rightarrow> go_error option" where
  "toy_check cert contents s = (if s = cert # contents then None else Some (Err ''bad signature''))"

lemma toy_key_pair: "key_pair (\<lambda>x. x) toy_sign toy_check key key"
  by (auto simp: key_pair_def toy_sign_def toy_check_def)

definition toy_signer :: "char message_signer" where
  "toy_signer = \<lparr>ms_header = ''X-Signature'', ms_key = Some CHR ''s''\<rparr>"

definition signed_demo :: msg_in where
  "signed_demo = demo_delivery\<lparr>d_Headers := Some [(''X-Signature'', VBytes ''sidbody'')]\<rparr>"

theorem signed_message_validates_witness:
  "validator_Handle toy_check \<lparr>mv_header = ''X-Signature'', mv_cert = Some CHR ''s''\<rparr> signed_demo = Value True"
proof (rule signed_message_validates [OF toy_key_pair, where fs = "[]"])
  let ?p = "(zero_publishing None)\<lparr>p_MessageId := ''id'', p_Body := ''body''\<rparr>"
  let ?hp = "\<lparr>hp_table = (\<lambda>_. [(''X-Signature'', VBytes ''sidbody'')]), hp_next = 1\<rparr>"
  show "processMessage ([] @ [signer_Handle (\<lambda>x. x) toy_sign \<lparr>ms_header = ''X-Signature'', ms_key = Some CHR ''s''\<rparr>])
      ?p \<lparr>hp_table = (\<lambda>_. [(''X-Signature'', VBytes ''sidbody'')]), hp_next = 0\<rparr> =
      Value (True, ?p\<lparr>p_Headers := Some 0\<rparr>, ?hp)"
    by (simp add: signer_Handle_def sign_def toy_sign_def header_put_def map_put_def zero_publishing_def Let_def fun_eq_iff)
  show "relayed (wire ?hp (?p\<lparr>p_Headers := Some 0\<rparr>)) signed_demo"
    by (simp add: relayed_def signed_demo_def demo_delivery_def)
qed

text \<open>
  C17: What passes the validator: a delivery with a byte-array signature in the header, and that
  signature is the one of its identifier followed by its body; anything else is turned down, a
  missing or wrongly typed header included, and the validator never panics.
\<close>

theorem validator_accepts_iff:
  assumes "key_pair sha512 rsa_sign check key cert"
  shows "\<exists>ok. validator_Handle check \<lparr>mv_header = hdr, mv_cert = Some cert\<rparr> d = Value ok \<and>
    (ok \<longleftrightarrow> (\<exists>s. map_get (d_Headers d) hdr = Some (VBytes s) \<and>
             sign sha512 rsa_sign (d_MessageId d @ d_Body d) key = Inr s))"
  using assms by (auto simp: validator_Handle_map_get key_pair_def sign_def split: option.split amqp_value.split)

theorem validator_accepts_iff_witness:
  "validator_Handle toy_check \<lparr>mv_header = ''X-Signature'', mv_cert = Some CHR ''s''\<rparr>
     (signed_demo\<lparr>d_Body := ''other''\<rparr>) = Value False"
  using validator_accepts_iff [OF toy_key_pair, of "''X-Signature''" "CHR ''s''" "signed_demo\<lparr>d_Body := ''other''\<rparr>"]
  by (auto simp: sign_def toy_sign_def signed_demo_def demo_delivery_def map_get_def)

text \<open>
  C18: The signature does not separate the identifier from the body: whoever sees one valid
  message can move the beginning of its body to the end of its identifier (or back) and the
  result is valid too, under an identifier no receiver has seen before.
\<close>

theorem signature_boundary_shift:
  assumes "validator_Handle check mv d = Value True"
    and "d_MessageId d @ d_Body d = new_id @ new_body"
  shows "validator_Handle check mv (d\<lparr>d_MessageId := new_id, d_Body := new_body\<rparr>) = Value True"
  using assms by (auto simp: validator_Handle_def Let_def split: option.splits amqp_value.splits)

theorem signature_boundary_shift_witness:
  "validator_Handle toy_check \<lparr>mv_header = ''X-Signature'', mv_cert = Some CHR ''s''\<rparr>
     (signed_demo\<lparr>d_MessageId := ''idbo'', d_Body := ''dy''\<rparr>) = Value True"
  by (rule signature_boundary_shift)
    (simp_all add: validator_Handle_def signed_demo_def demo_delivery_def toy_check_def)

text \<open>
  A valid message is still valid after a retry: the copy the requeuer publishes, with the
  last error added to its headers, passes the validator again when it comes back.
\<close>

lemma requeued_message_validates:
  assumes "validator_Handle check \<lparr>mv_header = hdr, mv_cert = Some cert\<rparr> d = Value True"
    and "hdr \<noteq> LastErrorHeader"
    and "relayed (requeue_publishing rc (with_last_error e d)) d'"
  shows "validator_Handle check \<lparr>mv_header = hdr, mv_cert = Some cert\<rparr> d' = Value True"
proof -
  have "map_get (d_Headers (with_last_error e d)) hdr = map_get (d_Headers d) hdr"
    using assms(2) by (cases e) (simp_all add: with_last_error_headers with_last_error_def)
  with assms(1,3) show ?thesis
    by (auto simp: validator_Handle_map_get relayed_def split: option.splits amqp_value.splits)
qed

section \<open>A sink with a validator\<close>

lemma run_filters_refused:
  assumes "\<forall>f \<in> set fs. \<forall>h' d'. snd (f h' d') = d'" and "\<And>h. g h d = (False, d)"
  shows "\<exists>asked. run_filters b i (fs @ g # gs) d h =
      and_then (call_unit b (Nack (d_DeliveryTag d) False False)) (\<lambda>_. pure_amqp None) (h @ asked) \<and>
    calls_of asked = [] \<and> (\<forall>d' e. RanHandler d' e \<notin> set asked)"
  using assms(1)
proof (induction fs arbitrary: i h)
  case Nil
  then show ?case using assms(2) by (auto simp: calls_of_def intro!: exI [of _ "[Filtered i False]"])
next
  case (Cons f fs)
  obtain ok where f: "f h d = (ok, d)" using Cons.prems by (metis list.set_intros(1) surjective_pairing)
  show ?case
  proof (cases ok)
    case True
    from Cons.IH [of "Suc i" "h @ [Filtered i True]"] Cons.prems obtain asked where
      "run_filters b (Suc i) (fs @ g # gs) d (h @ [Filtered i True]) =
        and_then (call_unit b (Nack (d_DeliveryTag d) False False)) (\<lambda>_. pure_amqp None) (h @ Filtered i True # asked)"
      "calls_of asked = []" "\<forall>d' e. RanHandler d' e \<notin> set asked" by auto
    with f True show ?thesis by (intro exI [of _ "Filtered i True # asked"]) (auto simp: calls_of_def)
  next
    case False
    with f show ?thesis by (intro exI [of _ "[Filtered i False]"]) (auto simp: calls_of_def)
  qed
qed

lemma verdict_events_asked: "\<exists>evs. verdict_events s d h = h @ evs \<and> calls_of evs = [] \<and> (\<forall>d' e. RanHandler d' e \<notin> set evs)"
  by (simp add: verdict_events_def warning_asked_def Let_def calls_of_def)

text \<open>
  C19: In a sink with a validator among its filters, where the filters before it do not change
  the message, no handler ever sees a delivery the validator turns down: it is rejected without
  requeueing, whatever the retry limits say, and that is all that is done with it. (Filters are
  taken to return; one that panics ends the process.)
\<close>

theorem invalid_message_never_handled:
  assumes "validator_Handle check \<lparr>mv_header = hdr, mv_cert = Some cert\<rparr> d = Value False"
    and "sk_middleware s = fs @ validator_filter check hdr cert # gs"
    and "\<forall>f \<in> set fs. \<forall>h' d'. snd (f h' d') = d'"
  shows "\<exists>asked r. sink_message b s handler d h =
      ((case r of Inl e \<Rightarrow> Inl e | Inr _ \<Rightarrow> Inr ()), h @ asked @ [Did (Nack (d_DeliveryTag d) False False) r]) \<and>
    calls_of asked = [] \<and> (\<forall>d' e. RanHandler d' e \<notin> set asked)"
proof -
  let ?d = "d\<lparr>d_RoutingKey := restoreRoutingKey d\<rparr>"
  obtain evs where evs: "verdict_events s d h = h @ evs" "calls_of evs = []" "\<forall>d' e. RanHandler d' e \<notin> set evs"
    using verdict_events_asked by blast
  have "validator_filter check hdr cert h' ?d = (False, ?d)" for h'
    using assms(1) by (simp add: validator_filter_def)
  with assms(3) run_filters_refused [of fs "validator_filter check hdr cert" ?d b 0 gs "h @ evs"] obtain asked where
    "run_filters b 0 (sk_middleware s) ?d (h @ evs) =
      and_then (call_unit b (Nack (d_DeliveryTag d) False False)) (\<lambda>_. pure_amqp None) (h @ evs @ asked)"
    "calls_of asked = []" "\<forall>d' e. RanHandler d' e \<notin> set asked"
    by (auto simp: assms(2))
  then have "sink_verdict s d h \<Longrightarrow> ?thesis"
    using evs by (intro exI [of _ "evs @ asked"])
      (auto simp: sink_message_verdict amqp_defs Let_def split: sum.split)
  moreover have "\<not> sink_verdict s d h \<Longrightarrow> ?thesis"
    using evs by (intro exI [of _ evs]) (auto simp: sink_message_verdict amqp_defs Let_def split: sum.split)
  ultimately show ?thesis by blast
qed

theorem invalid_message_never_handled_witness:
  "\<exists>asked r. sink_message named_broker (sink_Use (validator_filter toy_check ''X-Signature'' CHR ''s'')
        (newSink ''q'' plain_defaults)) (\<lambda>_. pure_amqp ()) demo_delivery [] =
     ((case r of Inl e \<Rightarrow> Inl e | Inr _ \<Rightarrow> Inr ()), asked @ [Did (Nack 1 False False) r])"
proof -
  have "validator_Handle toy_check \<lparr>mv_header = ''X-Signature'', mv_cert = Some CHR ''s''\<rparr> demo_delivery = Value False"
    by (simp add: validator_Handle_def demo_delivery_def)
  from invalid_message_never_handled [OF this, where s = "sink_Use (validator_filter toy_check ''X-Signature'' CHR ''s'')
      (newSink ''q'' plain_defaults)" and fs = "[]" and gs = "[]" and b = named_broker and h = "[]"
      and handler = "\<lambda>_. pure_amqp ()"]
  show ?thesis
    by (auto simp: sink_Use_def newSink_def OnExpired_def OnTooMuchRetries_def plain_defaults_def
        demo_delivery_def Let_def)
qed

end
