(* ===== verification/Broker_Config.thy ===== *)
theory Broker_Config
  imports Sink
begin

text \<open>
  \<open>config.go\<close> and the constructors of \<open>amqp.go\<close>: the configuration of a broker with its
  defaults and setters, what a sink takes over from it, and which handlers a finished sink,
  writer or requeuer registers with the server.
\<close>

section \<open>Configuration\<close>

text \<open>A context and a logger are objects of the caller's; only which one is set matters.\<close>

datatype context_ref = Background | UserContext nat
datatype logger_ref = Discard | StdLog string | UserLogger nat

record broker_config =
  bc_defaultSink :: sink_defaults
  bc_urls :: "string list"
  bc_reconnectInterval :: "64 word"
  bc_connectTimeout :: "64 word"
  bc_ctx :: context_ref
  bc_logger :: logger_ref

text \<open>\<open>verboseLogging\<close> is the field \<open>df_verbose\<close> of what sinks take over.\<close>

definition Broker :: "string list \<Rightarrow> broker_config" where
  "Broker urls = \<lparr>bc_defaultSink = \<lparr>df_retries = 10, df_expired = None, df_tooMuch = None, df_threshold = 0, df_verbose = True\<rparr>,
     bc_urls = urls, bc_reconnectInterval = 5 * second, bc_connectTimeout = 20 * second,
     bc_ctx = Background, bc_logger = Discard\<rparr>"

definition broker_Interval :: "64 word \<Rightarrow> broker_config \<Rightarrow> broker_config" where
  "broker_Interval tm bc = bc\<lparr>bc_reconnectInterval := tm\<rparr>"

definition broker_Timeout :: "64 word \<Rightarrow> broker_config \<Rightarrow> broker_config" where
  "broker_Timeout tm bc = bc\<lparr>bc_connectTimeout := tm\<rparr>"

definition broker_Logger :: "logger_ref \<Rightarrow> broker_config \<Rightarrow> broker_config" where
  "broker_Logger l bc = bc\<lparr>bc_logger := l\<rparr>"

definition broker_StdLogger :: "string \<Rightarrow> broker_config \<Rightarrow> broker_config" where
  "broker_StdLogger prefix_text = broker_Logger (StdLog prefix_text)"

definition broker_Verbose :: "bool \<Rightarrow> broker_config \<Rightarrow> broker_config" where
  "broker_Verbose v bc = bc\<lparr>bc_defaultSink := (bc_defaultSink bc)\<lparr>df_verbose := v\<rparr>\<rparr>"

definition broker_Retries :: "64 word \<Rightarrow> broker_config \<Rightarrow> broker_config" where
  "broker_Retries num bc = bc\<lparr>bc_defaultSink := (bc_defaultSink bc)\<lparr>df_retries := num\<rparr>\<rparr>"

definition broker_OnExpired :: "expired_handler option \<Rightarrow> broker_config \<Rightarrow> broker_config" where
  "broker_OnExpired f bc = bc\<lparr>bc_defaultSink := (bc_defaultSink bc)\<lparr>df_expired := f\<rparr>\<rparr>"

definition broker_OnTooMuchRetries :: "64 word \<Rightarrow> expired_handler option \<Rightarrow> broker_config \<Rightarrow> broker_config" where
  "broker_OnTooMuchRetries threshold f bc =
     bc\<lparr>bc_defaultSink := (bc_defaultSink bc)\<lparr>df_tooMuch := f, df_threshold := threshold\<rparr>\<rparr>"

definition broker_Context :: "context_ref \<Rightarrow> broker_config \<Rightarrow> broker_config" where
  "broker_Context ctx bc = bc\<lparr>bc_ctx := ctx\<rparr>"

section \<open>Constructors of the server\<close>

definition server_Sink :: "broker_config \<Rightarrow> string \<Rightarrow> sink_config" where
  "server_Sink bc queue = newSink queue (bc_defaultSink bc)"

definition server_Publisher :: "broker_config \<Rightarrow> writer_config" where
  "server_Publisher bc = newWriter"

definition server_Requeue :: "broker_config \<Rightarrow> string \<Rightarrow> requeue_config" where
  "server_Requeue bc original = newRequeue original"

text \<open>
  What a server keeps of the handlers registered with it, in order: a sink with the name of its
  user function, a publisher, a requeuer. A sink's own requeuer is registered after the sink.
\<close>

datatype state_handler =
    SinkHandler sink_config
  | PublisherHandler writer_config
  | RequeueHandler requeue_config

definition writer_Create :: "writer_config \<Rightarrow> state_handler list \<Rightarrow> state_handler list" where
  "writer_Create wc hs = hs @ [PublisherHandler wc]"

definition requeue_Create :: "requeue_config \<Rightarrow> state_handler list \<Rightarrow> state_handler list" where
  "requeue_Create rc hs = hs @ [RequeueHandler rc]"

definition sink_HandlerFunc :: "sink_config \<Rightarrow> state_handler list \<Rightarrow> state_handler list" where
  "sink_HandlerFunc snk hs = (let hs1 = hs @ [SinkHandler snk] in
     case sk_rqConfig snk of None \<Rightarrow> hs1 | Some rc \<Rightarrow> requeue_Create rc hs1)"

definition sink_TransactFunc :: "sink_config \<Rightarrow> state_handler list \<Rightarrow> state_handler list" where
  "sink_TransactFunc snk = sink_HandlerFunc (ManualAck snk)"

text \<open>The methods of \<open>Exchange\<close> that finish a sink finish the sink the exchange belongs to.\<close>

definition exchange_HandlerFunc :: "sink_config \<Rightarrow> state_handler list \<Rightarrow> state_handler list" where
  "exchange_HandlerFunc snk = sink_HandlerFunc snk"

definition exchange_TransactFunc :: "sink_config \<Rightarrow> state_handler list \<Rightarrow> state_handler list" where
  "exchange_TransactFunc snk = sink_TransactFunc snk"

section \<open>Properties\<close>

lemma newSink_limits [builder_simps]:
  "sk_retries (newSink q df) = df_retries df" "sk_expired (newSink q df) = df_expired df"
  "sk_tooMuch (newSink q df) = df_tooMuch df" "sk_queueName (newSink q df) = q"
  "df_tooMuch df \<noteq> None \<Longrightarrow> sk_threshold (newSink q df) = df_threshold df"
  "sk_autoAck (newSink q df)" "sk_rqConfig (newSink q df) = None" "sk_name (newSink q df) = ''''"
  "sk_attrs (newSink q df) = None" "sk_bindings (newSink q df) = []" "sk_middleware (newSink q df) = []"
  "sk_deadQueue (newSink q df) = ''''" "sk_deadExchange (newSink q df) = ''''"
  by (auto simp: newSink_def OnExpired_def OnTooMuchRetries_def Let_def)

text \<open>
  The retry limit of a sink that sets no handlers of its own is the broker's default or,
  where the sink sets one, its own: a delivery is kept exactly while it has come back at most
  that many times, ten by default; a negative number keeps every delivery.
\<close>

lemma retry_limit_in_force:
  "(sink_verdict (server_Sink (Broker urls) q) d h \<longleftrightarrow> sint (getRedelivery d) \<le> 10) \<and>
   (sink_verdict (server_Sink (broker_Retries n (Broker urls)) q) d h \<longleftrightarrow>
     sint n < 0 \<or> sint (getRedelivery d) \<le> sint n) \<and>
   (sink_verdict (Retries k (server_Sink (broker_Retries n (Broker urls)) q)) d h \<longleftrightarrow>
     sint k < 0 \<or> sint (getRedelivery d) \<le> sint k)"
  by (auto simp: sink_verdict_def retry_warned_def retry_expired_def expired_answer_def server_Sink_def
      Broker_def broker_Retries_def Retries_def builder_simps)

text \<open>
  What \<open>DeadLetter\<close> leaves in the arguments of the sink's queue and in the set-up: each of
  the two arguments is there exactly if its value is not empty (an earlier one is removed), all
  others are kept, and the set-up declares the exchange, the queue and the binding that are
  named. With the default exchange (the empty name) only the routing key is set, so the queue
  has no dead-letter exchange.
\<close>

lemma dead_letter_settings:
  "map_get (sk_attrs (DeadLetter ex k s)) ''x-dead-letter-exchange'' = (if ex = '''' then None else Some (VString ex)) \<and>
   map_get (sk_attrs (DeadLetter ex k s)) ''x-dead-letter-routing-key'' = (if k = '''' then None else Some (VString k)) \<and>
   (a \<notin> {''x-dead-letter-exchange'', ''x-dead-letter-routing-key''} \<longrightarrow>
     map_get (sk_attrs (DeadLetter ex k s)) a = map_get (sk_attrs s) a) \<and>
   sink_dead_plan (DeadLetter ex k s) =
     (if ex \<noteq> '''' then [ExchangeDeclare ex ''direct'' True False False False None] else []) @
     (if k \<noteq> '''' then [QueueDeclare k True False False False None] else []) @
     (if ex \<noteq> '''' \<and> k \<noteq> '''' then [QueueBind k k ex False None] else [])"
  by (simp add: DeadLetter_def deadLetterQueue_def deadLetterExchange_def sink_Attr_def sink_dead_plan_def Let_def)

text \<open>
  Finishing a sink registers it with everything set on it before, followed by the requeuer
  it configured, which serves the sink's own queue under the name of that queue with
  \<open>/requeue\<close> after it and the configured delay; a transaction makes the sink acknowledge by
  hand whatever was set before.
\<close>

lemma transact_registers:
  "sink_TransactFunc (sink_Requeue tm (server_Sink bc q)) hs =
     hs @ [SinkHandler (ManualAck (sink_Requeue tm (server_Sink bc q))),
           RequeueHandler \<lparr>rc_queueName = q @ ''/requeue'', rc_targetQueue = q, rc_timeout = tm\<rparr>] \<and>
   \<not> sk_autoAck (ManualAck (sink_Requeue tm (server_Sink bc q)))"
  by (simp add: sink_TransactFunc_def sink_HandlerFunc_def ManualAck_def sink_Requeue_def server_Sink_def
      requeue_Create_def requeue_Timeout_def newRequeue_def builder_simps Let_def)

end
