(* ===== verification/Server.thy ===== *)
theory Server
  imports Connection Notify
begin

text \<open>
  \<open>amqp.go\<close>, the server's goroutines: \<open>handle\<close>, which any goroutine may call; the main loop
  \<open>start\<close> with its states; the goroutine of \<open>streamHandlers\<close> that hands the handlers to the
  connection; and one goroutine for each handler. \<open>docs/connection_state.dot\<close> is the abstract
  machine the loop is compared with.
\<close>

section \<open>The state\<close>

text \<open>
  The main loop: before the first dial, dialling, ranging over the handlers of a connection,
  waiting for the goroutines after that, connection closed, waiting to reconnect, returned.
\<close>

datatype server_pc = SStart | SReady | SEstablished | SWaiting | SDisconnected | SIdle | SFinished

text \<open>
  \<open>streamHandlers\<close>: no such goroutine yet, about to read the number of handlers with the
  first \<open>n\<close> given out, about to give out \<open>i\<close> with the number read, in the \<open>select\<close> on
  \<open>refreshHandlers\<close>, and returned.
\<close>

datatype stream_pc = StOff | StTop nat | StSending nat nat | StSelect nat | StExited

text \<open>A handler's goroutine: none, creating its channel, in \<open>ChannelReady\<close>, ended.\<close>

datatype worker = WAbsent | WCreating | WServing | WEnded

text \<open>A caller of \<open>handle\<close>: outside, or between the unlock and the non-blocking send.\<close>

datatype caller = NotHandling | Appended

text \<open>
  \<open>sv_child\<close> says that \<open>closer\<close> was called, which cancels the connection's context; the
  broker's context is \<open>sv_ctx\<close>. \<open>sv_made\<close> is not in the code: whether a channel was created on
  this connection.
\<close>

record server_sys =
  sv_handlers :: "state_handler list"
  sv_refresh :: "unit chan"
  sv_caller :: "nat \<Rightarrow> caller"
  sv_ctx :: "go_error option"
  sv_pc :: server_pc
  sv_child :: bool
  sv_stream :: stream_pc
  sv_worker :: "nat \<Rightarrow> worker"
  sv_made :: bool
  sv_done :: "unit chan"

definition server_start :: "server_sys \<Rightarrow> bool" where
  "server_start s \<longleftrightarrow> sv_handlers s = [] \<and> sv_refresh s = chan_make 1 \<and> (\<forall>c. sv_caller s c = NotHandling) \<and>
     sv_pc s = SStart \<and> sv_stream s = StOff \<and> (\<forall>i. sv_worker s i = WAbsent) \<and> sv_done s = chan_make 0"

text \<open>The connection's context is done.\<close>

definition child_done :: "server_sys \<Rightarrow> bool" where
  "child_done s \<longleftrightarrow> sv_child s \<or> sv_ctx s \<noteq> None"

definition connected :: "server_sys \<Rightarrow> server_sys" where
  "connected s = s\<lparr>sv_pc := SEstablished, sv_child := False, sv_stream := StTop 0,
     sv_worker := (\<lambda>_. WAbsent), sv_made := False\<rparr>"

section \<open>The steps\<close>

text \<open>
  The answers of the broker library (\<open>dial\<close>, \<open>opened\<close>, \<open>b\<close>) and when a handler returns are
  free; a failed \<open>createChannel\<close> and a returning handler both call \<open>closer\<close>.
\<close>

inductive server_step :: "broker_config \<Rightarrow> server_sys \<Rightarrow> server_sys \<Rightarrow> bool" for cfg :: broker_config where
  handle_append: "sv_caller s c = NotHandling \<Longrightarrow>
    server_step cfg s (s\<lparr>sv_handlers := sv_handlers s @ [h], sv_caller := (sv_caller s)(c := Appended)\<rparr>)"
| handle_notify: "sv_caller s c = Appended \<Longrightarrow>
    server_step cfg s (s\<lparr>sv_refresh := chan_offer (sv_refresh s) (), sv_caller := (sv_caller s)(c := NotHandling)\<rparr>)"
| first_ready: "sv_pc s = SStart \<Longrightarrow> server_step cfg s (s\<lparr>sv_pc := SReady\<rparr>)"
| dial_fails: "sv_pc s = SReady \<Longrightarrow> dialToFirstReachable (dial :: nat \<Rightarrow> string \<Rightarrow> go_error + nat) ctx cfg = (Inl e, logs) \<Longrightarrow>
    server_step cfg s (s\<lparr>sv_pc := SIdle\<rparr>)"
| dial_connects: "sv_pc s = SReady \<Longrightarrow> dialToFirstReachable (dial :: nat \<Rightarrow> string \<Rightarrow> go_error + nat) ctx cfg = (Inr conn, logs) \<Longrightarrow>
    server_step cfg s (connected s)"
| stream_reads: "sv_stream s = StTop n \<Longrightarrow>
    server_step cfg s (s\<lparr>sv_stream := StSending n (length (sv_handlers s))\<rparr>)"
| stream_gives: "sv_stream s = StSending i n \<Longrightarrow> i < n \<Longrightarrow> sv_pc s = SEstablished \<Longrightarrow>
    server_step cfg s (s\<lparr>sv_stream := StSending (Suc i) n, sv_worker := (sv_worker s)(i := WCreating)\<rparr>)"
| stream_parks: "sv_stream s = StSending i n \<Longrightarrow> \<not> i < n \<Longrightarrow>
    server_step cfg s (s\<lparr>sv_stream := StSelect n\<rparr>)"
| stream_wakes: "sv_stream s = StSelect n \<Longrightarrow> chan_recv (sv_refresh s) = Some (x, c) \<Longrightarrow>
    server_step cfg s (s\<lparr>sv_refresh := c, sv_stream := StTop n\<rparr>)"
| stream_stops: "sv_stream s = StSending i n \<and> i < n \<or> sv_stream s = StSelect n \<Longrightarrow> child_done s \<Longrightarrow>
    server_step cfg s (s\<lparr>sv_stream := StExited\<rparr>)"
| range_ends: "sv_pc s = SEstablished \<Longrightarrow> sv_stream s = StExited \<Longrightarrow>
    server_step cfg s (s\<lparr>sv_pc := SWaiting\<rparr>)"
| channel_created: "sv_worker s i = WCreating \<Longrightarrow> createChannel opened b [] = (Inr (), hist) \<Longrightarrow>
    server_step cfg s (s\<lparr>sv_worker := (sv_worker s)(i := WServing), sv_made := True\<rparr>)"
| channel_fails: "sv_worker s i = WCreating \<Longrightarrow> createChannel opened b [] = (Inl e, hist) \<Longrightarrow>
    server_step cfg s (s\<lparr>sv_worker := (sv_worker s)(i := WEnded), sv_child := True\<rparr>)"
| handler_returns: "sv_worker s i = WServing \<Longrightarrow>
    server_step cfg s (s\<lparr>sv_worker := (sv_worker s)(i := WEnded), sv_child := True\<rparr>)"
| all_returned: "sv_pc s = SWaiting \<Longrightarrow> \<forall>i. sv_worker s i \<in> {WAbsent, WEnded} \<Longrightarrow>
    server_step cfg s (s\<lparr>sv_pc := SDisconnected, sv_child := True\<rparr>)"
| disconnected: "sv_pc s = SDisconnected \<Longrightarrow> server_step cfg s (s\<lparr>sv_pc := SIdle\<rparr>)"
| idle_elapsed: "sv_pc s = SIdle \<Longrightarrow> server_step cfg s (s\<lparr>sv_pc := SReady\<rparr>)"
| idle_aborted: "sv_pc s = SIdle \<Longrightarrow> sv_ctx s = Some e \<Longrightarrow> chan_close (sv_done s) = Value c \<Longrightarrow>
    server_step cfg s (s\<lparr>sv_pc := SFinished, sv_done := c\<rparr>)"
| shutdown: "sv_ctx s = None \<Longrightarrow> server_step cfg s (s\<lparr>sv_ctx := Some e\<rparr>)"

section \<open>The invariant\<close>

text \<open>How many handlers the stream has given out, while it runs.\<close>

fun stream_given :: "stream_pc \<Rightarrow> nat option" where
  "stream_given (StTop n) = Some n"
| "stream_given (StSending i n) = Some i"
| "stream_given (StSelect n) = Some n"
| "stream_given _ = None"

definition workers_upto :: "(nat \<Rightarrow> worker) \<Rightarrow> nat \<Rightarrow> bool" where
  "workers_upto f g \<longleftrightarrow> (\<forall>i. f i = WAbsent \<longleftrightarrow> \<not> i < g)"

definition workers_over :: "(nat \<Rightarrow> worker) \<Rightarrow> bool" where
  "workers_over f \<longleftrightarrow> (\<forall>i. f i \<in> {WAbsent, WEnded})"

definition has_worker :: "worker \<Rightarrow> (nat \<Rightarrow> worker) \<Rightarrow> bool" where
  "has_worker w f \<longleftrightarrow> (\<exists>i. f i = w)"

definition refresh_ok :: "server_sys \<Rightarrow> bool" where
  "refresh_ok s \<longleftrightarrow> ch_cap (sv_refresh s) = 1 \<and> \<not> ch_closed (sv_refresh s)"

text \<open>While the stream runs, the main loop ranges over it and the given handlers have goroutines.\<close>

fun stream_ok :: "server_sys \<Rightarrow> stream_pc \<Rightarrow> bool" where
  "stream_ok s StOff = (sv_pc s \<in> {SStart, SReady, SIdle, SFinished} \<and> workers_over (sv_worker s))"
| "stream_ok s StExited = (child_done s \<and> sv_pc s \<noteq> SStart \<and>
     (sv_pc s \<in> {SEstablished, SWaiting} \<or> workers_over (sv_worker s)) \<and> (\<exists>g. workers_upto (sv_worker s) g \<and> g \<le> length (sv_handlers s)))"
| "stream_ok s (StTop n) = (sv_pc s = SEstablished \<and> workers_upto (sv_worker s) n \<and> n \<le> length (sv_handlers s))"
| "stream_ok s (StSending i n) = (sv_pc s = SEstablished \<and> workers_upto (sv_worker s) i \<and> i \<le> n \<and> n \<le> length (sv_handlers s))"
| "stream_ok s (StSelect n) = (sv_pc s = SEstablished \<and> workers_upto (sv_worker s) n \<and> n \<le> length (sv_handlers s))"

definition server_inv :: "server_sys \<Rightarrow> bool" where
  "server_inv s \<longleftrightarrow> refresh_ok s \<and> stream_ok s (sv_stream s) \<and>
     (sv_pc s \<in> {SEstablished, SWaiting} \<longrightarrow> has_worker WEnded (sv_worker s) \<longrightarrow> sv_child s) \<and>
     (sv_pc s \<in> {SEstablished, SWaiting} \<longrightarrow> has_worker WServing (sv_worker s) \<longrightarrow> sv_made s) \<and>
     (ch_closed (sv_done s) \<longleftrightarrow> sv_pc s = SFinished)"

lemma workers_upto_give: "workers_upto f i \<Longrightarrow> workers_upto (f(i := WCreating)) (Suc i)"
  unfolding workers_upto_def by (metis fun_upd_apply less_Suc_eq worker.distinct(1))

lemma workers_upto_update: "f i \<noteq> WAbsent \<Longrightarrow> w \<noteq> WAbsent \<Longrightarrow> workers_upto (f(i := w)) g = workers_upto f g"
  unfolding workers_upto_def by (metis fun_upd_apply)

lemma workers_over_live: "f i = WCreating \<Longrightarrow> \<not> workers_over f" "f i = WServing \<Longrightarrow> \<not> workers_over f"
  by (auto simp: workers_over_def intro!: exI [of _ i])

lemma workers_none [simp]: "workers_upto (\<lambda>_. WAbsent) 0" "workers_over (\<lambda>_. WAbsent)"
  "has_worker w (\<lambda>_. WAbsent) \<longleftrightarrow> w = WAbsent"
  by (auto simp: workers_upto_def workers_over_def has_worker_def)

lemma has_worker_update: "has_worker w' (f(i := w)) \<Longrightarrow> w' = w \<or> has_worker w' f"
  by (auto simp: has_worker_def split: if_splits)

lemma server_start_inv: "server_start s \<Longrightarrow> server_inv s"
proof -
  assume s: "server_start s"
  then have "sv_worker s = (\<lambda>_. WAbsent)" by (auto simp: server_start_def)
  with s show ?thesis by (simp add: server_start_def server_inv_def refresh_ok_def)
qed

lemmas server_inv_defs = server_inv_def refresh_ok_def child_done_def

text \<open>What a handler's goroutine does to its own place keeps the invariant.\<close>

lemma worker_moves_inv:
  assumes "server_inv s" and "sv_worker s i \<in> {WCreating, WServing}" and "w \<in> {WServing, WEnded}"
    and "w = WServing \<or> sv_made s \<Longrightarrow> made" and "w = WEnded \<or> sv_child s \<Longrightarrow> child"
  shows "server_inv (s\<lparr>sv_worker := (sv_worker s)(i := w), sv_made := made, sv_child := child\<rparr>)"
proof -
  have over: "\<not> workers_over (sv_worker s)" using assms(2) workers_over_live by auto
  have upto: "workers_upto ((sv_worker s)(i := w)) g = workers_upto (sv_worker s) g" for g
    using assms(2,3) by (intro workers_upto_update) auto
  have has: "has_worker w' ((sv_worker s)(i := w)) \<Longrightarrow> w' = w \<or> has_worker w' (sv_worker s)" for w'
    by (rule has_worker_update)
  have ok: "stream_ok s (sv_stream s)" using assms(1) by (simp add: server_inv_def)
  have "stream_ok (s\<lparr>sv_worker := (sv_worker s)(i := w), sv_made := made, sv_child := child\<rparr>) (sv_stream s)"
    using ok over assms(5) by (cases "sv_stream s") (auto simp: upto child_done_def)
  with assms(1,4,5) has show ?thesis by (auto simp: server_inv_def refresh_ok_def)
qed

lemma stream_ok_more:
  "stream_ok s st \<Longrightarrow> stream_ok (s\<lparr>sv_handlers := sv_handlers s @ [h], sv_caller := f\<rparr>) st"
  by (cases st) (fastforce simp: child_done_def)+

lemma more_handlers_inv: "server_inv s \<Longrightarrow> server_inv (s\<lparr>sv_handlers := sv_handlers s @ [h], sv_caller := f\<rparr>)"
  using stream_ok_more [where st = "sv_stream s" and s = s and h = h and f = f] by (simp add: server_inv_def refresh_ok_def)
lemma server_step_inv: "server_step cfg s t \<Longrightarrow> server_inv s \<Longrightarrow> server_inv t"
proof (induction rule: server_step.induct)
  case (handle_append s c h)
  from handle_append(2) show ?case by (rule more_handlers_inv)
next
  case (handle_notify s c)
  then show ?case by (cases "sv_stream s") (auto simp: server_inv_defs)
next
  case (first_ready s)
  then show ?case by (cases "sv_stream s") (auto simp: server_inv_defs)
next
  case (dial_fails s)
  then show ?case by (cases "sv_stream s") (auto simp: server_inv_defs)
next
  case (dial_connects s)
  then show ?case by (cases "sv_stream s") (auto simp: server_inv_defs connected_def)
next
  case (stream_reads s n)
  then show ?case by (cases "sv_stream s") (auto simp: server_inv_defs)
next
  case (stream_gives s i n)
  then show ?case by (cases "sv_stream s") (auto simp: server_inv_defs dest!: has_worker_update dest: workers_upto_give)
next
  case (stream_parks s i n)
  then show ?case by (cases "sv_stream s") (auto simp: server_inv_defs)
next
  case (stream_wakes s n x c)
  then show ?case by (cases "sv_stream s") (auto simp: server_inv_defs chan_recv_def split: list.splits if_splits)
next
  case (stream_stops s i n)
  then show ?case by (cases "sv_stream s") (auto simp: server_inv_defs)
next
  case (range_ends s)
  then show ?case by (cases "sv_stream s") (auto simp: server_inv_defs)
next
  case (channel_created s i)
  then show ?case using worker_moves_inv [of s i WServing "True" "sv_child s"] by simp
next
  case (channel_fails s i)
  then show ?case using worker_moves_inv [of s i WEnded "sv_made s" "True"] by simp
next
  case (handler_returns s i)
  then show ?case using worker_moves_inv [of s i WEnded "sv_made s" "True"] by simp
next
  case (all_returned s)
  then have over: "workers_over (sv_worker s)" by (simp add: workers_over_def)
  from all_returned(1,3) over show ?case by (cases "sv_stream s") (auto simp: server_inv_defs chan_close_def split: if_splits)
next
  case (disconnected s)
  then show ?case by (cases "sv_stream s") (auto simp: server_inv_defs)
next
  case (idle_elapsed s)
  then show ?case by (cases "sv_stream s") (auto simp: server_inv_defs)
next
  case (idle_aborted s e c)
  then show ?case by (cases "sv_stream s") (auto simp: server_inv_defs chan_close_def split: if_splits)
next
  case (shutdown s e)
  then show ?case by (cases "sv_stream s") (auto simp: server_inv_defs)
qed

section \<open>The documented state machine\<close>

text \<open>The edges of \<open>docs/connection_state.dot\<close>.\<close>

datatype connection_state =
  FStart | FReady | FIdle | FConnectionEstablished | FChannelCreated | FChannelsCreated | FDisconnected | FFinished

fun documented_edge :: "connection_state \<Rightarrow> connection_state \<Rightarrow> bool" where
  "documented_edge FStart t = (t = FReady)"
| "documented_edge FIdle t = (t \<in> {FReady, FFinished})"
| "documented_edge FReady t = (t \<in> {FIdle, FConnectionEstablished})"
| "documented_edge FConnectionEstablished t = (t \<in> {FDisconnected, FChannelCreated})"
| "documented_edge FChannelCreated t = (t = FChannelsCreated)"
| "documented_edge FChannelsCreated t = (t = FDisconnected)"
| "documented_edge FDisconnected t = (t = FIdle)"
| "documented_edge FFinished t = False"

text \<open>
  The state of the document a server is in; a connection on which no channel was created yet
  stays in \<open>connection_established\<close>.
\<close>

definition documented_state :: "server_sys \<Rightarrow> connection_state" where
  "documented_state s = (case sv_pc s of
     SStart \<Rightarrow> FStart
   | SReady \<Rightarrow> FReady
   | SEstablished \<Rightarrow> if sv_made s then FChannelCreated else FConnectionEstablished
   | SWaiting \<Rightarrow> if sv_made s then FChannelsCreated else FConnectionEstablished
   | SDisconnected \<Rightarrow> FDisconnected
   | SIdle \<Rightarrow> FIdle
   | SFinished \<Rightarrow> FFinished)"

definition live_worker :: "server_sys \<Rightarrow> nat \<Rightarrow> bool" where
  "live_worker s i \<longleftrightarrow> sv_worker s i \<in> {WCreating, WServing}"

lemma not_connected_over:
  "server_inv s \<Longrightarrow> sv_pc s \<notin> {SEstablished, SWaiting} \<Longrightarrow> workers_over (sv_worker s)"
  by (cases "sv_stream s") (auto simp: server_inv_def)

lemma live_worker_connected: "server_inv s \<Longrightarrow> live_worker s i \<Longrightarrow> sv_pc s \<in> {SEstablished, SWaiting}"
  using not_connected_over [of s] workers_over_live unfolding live_worker_def by blast

lemma server_step_documented:
  assumes "server_step cfg s t" and "server_inv s"
  shows "documented_state t = documented_state s \<or> documented_edge (documented_state s) (documented_state t) \<or>
    (sv_pc s = SWaiting \<and> documented_state s = FConnectionEstablished \<and> documented_state t = FChannelsCreated)"
  using assms
proof (induction rule: server_step.induct)
  case (channel_created s i opened b hist)
  then have "sv_pc s \<in> {SEstablished, SWaiting}" by (intro live_worker_connected [of _ i]) (simp_all add: live_worker_def)
  then show ?case by (auto simp: documented_state_def)
qed (auto simp: documented_state_def connected_def)

section \<open>No handler is forgotten\<close>

text \<open>
  Once \<open>streamHandlers\<close> has read the number of handlers it works with that number until it is
  woken; it is behind when handlers were added since.
\<close>

fun stream_target :: "stream_pc \<Rightarrow> nat option" where
  "stream_target (StSending i n) = Some n"
| "stream_target (StSelect n) = Some n"
| "stream_target _ = None"

definition stream_committed :: "server_sys \<Rightarrow> bool" where
  "stream_committed s \<longleftrightarrow> stream_target (sv_stream s) \<noteq> None"

definition stream_behind :: "server_sys \<Rightarrow> bool" where
  "stream_behind s \<longleftrightarrow> (\<exists>n. stream_target (sv_stream s) = Some n \<and> n < length (sv_handlers s))"

definition handler_announcing :: "server_sys \<Rightarrow> bool" where
  "handler_announcing s \<longleftrightarrow> (\<exists>c. sv_caller s c = Appended)"

lemmas stream_defs = stream_committed_def stream_behind_def handler_announcing_def

interpretation handler_news: wakeup server_start "server_step cfg" server_inv stream_committed stream_behind
    "\<lambda>s. ch_buf (sv_refresh s) \<noteq> []" handler_announcing for cfg
proof (unfold_locales, goal_cases)
  case (1 s)
  then show ?case by (rule server_start_inv)
next
  case (2 s t)
  then show ?case by (rule server_step_inv)
next
  case (3 s)
  then show ?case by (simp add: server_start_def stream_defs)
next
  case (4 s t)
  from 4(1,2,3) show ?case by cases (use 4(4) in \<open>auto simp: stream_defs connected_def\<close>)
next
  case (5 s t)
  from 5(1) show ?case by cases (use 5(2-) in \<open>auto simp: stream_defs connected_def\<close>)
next
  case (6 s t)
  from 6(1) show ?case
    by cases (use 6(2-) in \<open>auto simp: stream_defs connected_def server_inv_def refresh_ok_def chan_offer_nonempty split: if_splits\<close>)
next
  case (7 s t)
  from 7(1) show ?case
    by cases (use 7(2-) in \<open>auto simp: stream_defs connected_def server_inv_def refresh_ok_def chan_offer_nonempty\<close>)
qed

lemmas server_run_inv = handler_news.reachable_inv

lemma channels_created_done: "server_inv s \<Longrightarrow> documented_state s = FChannelsCreated \<Longrightarrow> child_done s"
proof -
  assume inv: "server_inv s"
  have "sv_pc s = SWaiting \<Longrightarrow> sv_stream s = StExited"
    using inv by (cases "sv_stream s") (auto simp: server_inv_def)
  with inv show "documented_state s = FChannelsCreated \<Longrightarrow> child_done s"
    by (auto simp: server_inv_def has_worker_def child_done_def documented_state_def split: server_pc.splits if_splits)
qed

text \<open>
  C24: The server against the documented state machine. A step stays in the same documented
  state, or takes an edge of the document, or takes the one edge the document does not have, from
  \<open>connection_established\<close> to \<open>channels_created\<close>, when the first channel is created only after the
  main loop has stopped handing out handlers. The document's label \<open>all channels created\<close> is not
  what the code does: \<open>channels_created\<close> is entered only with the context of the connection's
  handlers done, whether or not all channels were created.
\<close>

theorem server_follows_document:
  assumes "rtranclp (server_step cfg) s0 s" and "server_start s0" and "server_step cfg s t"
  shows "(documented_state t = documented_state s \<or> documented_edge (documented_state s) (documented_state t) \<or>
      (sv_pc s = SWaiting \<and> documented_state s = FConnectionEstablished \<and> documented_state t = FChannelsCreated)) \<and>
    (documented_state t = FChannelsCreated \<longrightarrow> child_done t)"
  using server_step_documented [OF assms(3) server_run_inv [OF assms(1,2)]]
    channels_created_done [OF server_step_inv [OF assms(3) server_run_inv [OF assms(1,2)]]]
  by blast

text \<open>
  C25: No handler is forgotten: when \<open>streamHandlers\<close> is waiting with no notification left and no
  \<open>handle\<close> is half done, every handler registered so far has its goroutine on the connection,
  each exactly one.
\<close>

theorem every_handler_served:
  assumes "rtranclp (server_step cfg) s0 s" and "server_start s0"
    and "sv_stream s = StSelect n" and "ch_buf (sv_refresh s) = []" and "\<forall>c. sv_caller s c = NotHandling"
  shows "sv_pc s = SEstablished \<and> (\<forall>i. sv_worker s i \<noteq> WAbsent \<longleftrightarrow> i < length (sv_handlers s))"
proof -
  have inv: "server_inv s" using assms(1,2) by (rule server_run_inv)
  have "\<not> stream_behind s"
    using handler_news.no_lost_wakeup [OF assms(1,2)] assms(3-5) by (auto simp: stream_defs)
  with inv assms(3) have "sv_pc s = SEstablished" "workers_upto (sv_worker s) (length (sv_handlers s))"
    by (auto simp: server_inv_def stream_behind_def)
  then show ?thesis by (auto simp: workers_upto_def)
qed

text \<open>
  C26: No goroutine outlives its connection: whenever the main loop is not working on a
  connection, every handler's goroutine has ended, so there are never two connections in use;
  and \<open>WaitToFinish\<close> is released exactly when the main loop has returned.
\<close>

theorem no_goroutine_outlives_connection:
  assumes "rtranclp (server_step cfg) s0 s" and "server_start s0"
  shows "(sv_pc s \<in> {SStart, SReady, SDisconnected, SIdle, SFinished} \<longrightarrow> (\<forall>i. sv_worker s i \<in> {WAbsent, WEnded})) \<and>
    (ch_closed (sv_done s) \<longleftrightarrow> sv_pc s = SFinished)"
proof -
  have inv: "server_inv s" using assms by (rule server_run_inv)
  then show ?thesis using not_connected_over [OF inv] by (auto simp: server_inv_def workers_over_def)
qed

text \<open>
  C27: One stops, all stop: once a handler's goroutine has ended on a connection, the context
  of all others is done. The state \<open>channels_created\<close> is entered only then, not when all
  channels were created: the stream of handlers ends with that context alone.
\<close>

theorem first_stop_cancels_all:
  assumes "rtranclp (server_step cfg) s0 s" and "server_start s0"
  shows "(sv_pc s \<in> {SEstablished, SWaiting} \<and> sv_worker s i = WEnded \<longrightarrow> child_done s) \<and>
    (documented_state s = FChannelsCreated \<longrightarrow> child_done s)"
proof -
  have inv: "server_inv s" using assms by (rule server_run_inv)
  with channels_created_done [OF inv] show ?thesis
    by (auto simp: server_inv_def has_worker_def child_done_def split: if_splits)
qed

section \<open>Shutdown\<close>

definition finishes :: "broker_config \<Rightarrow> server_sys \<Rightarrow> bool" where
  "finishes cfg s \<longleftrightarrow> (\<exists>t. rtranclp (server_step cfg) s t \<and> sv_pc t = SFinished)"

lemma finishes_step: "server_step cfg s t \<Longrightarrow> finishes cfg t \<Longrightarrow> finishes cfg s"
  unfolding finishes_def using run_step by metis

lemma finishes_run: "rtranclp (server_step cfg) s t \<Longrightarrow> finishes cfg t \<Longrightarrow> finishes cfg s"
  unfolding finishes_def by (meson rtranclp_trans)

lemma end_worker:
  "\<exists>c. rtranclp (server_step cfg) s (s\<lparr>sv_worker := (sv_worker s)(i := if live_worker s i then WEnded else sv_worker s i), sv_child := c\<rparr>)"
proof (cases "sv_worker s i")
  case WCreating
  then show ?thesis
    using server_step.channel_fails [where s = s and i = i and opened = "Some Canceled" and e = Canceled and cfg = cfg]
    by (fastforce simp: createChannel_def live_worker_def)
next
  case WServing
  then show ?thesis using server_step.handler_returns [of s i cfg] by (fastforce simp: live_worker_def)
qed (auto simp: live_worker_def fun_upd_idem intro!: exI [of _ "sv_child s"])

text \<open>The handlers' goroutines can all end.\<close>

lemma workers_drain:
  assumes "\<forall>i. k \<le> i \<longrightarrow> \<not> live_worker s i"
  shows "\<exists>f c. rtranclp (server_step cfg) s (s\<lparr>sv_worker := f, sv_child := c\<rparr>) \<and> workers_over f"
  using assms
proof (induction k arbitrary: s)
  case 0
  have "workers_over (sv_worker s)"
    unfolding workers_over_def
  proof
    fix i show "sv_worker s i \<in> {WAbsent, WEnded}" using 0 by (cases "sv_worker s i") (auto simp: live_worker_def)
  qed
  then show ?case by (intro exI [of _ "sv_worker s"] exI [of _ "sv_child s"]) simp
next
  case (Suc k)
  let ?f = "(sv_worker s)(k := if live_worker s k then WEnded else sv_worker s k)"
  obtain c where one: "rtranclp (server_step cfg) s (s\<lparr>sv_worker := ?f, sv_child := c\<rparr>)" using end_worker by blast
  have "\<not> live_worker (s\<lparr>sv_worker := ?f, sv_child := c\<rparr>) i" if "k \<le> i" for i
    using that Suc.prems by (cases "i = k") (auto simp: live_worker_def)
  with Suc.IH obtain f c' where
    "rtranclp (server_step cfg) (s\<lparr>sv_worker := ?f, sv_child := c\<rparr>) (s\<lparr>sv_worker := f, sv_child := c'\<rparr>)" "workers_over f"
    by fastforce
  with one show ?case by (meson rtranclp_trans)
qed

lemma finishes_idle: "server_inv s \<Longrightarrow> sv_ctx s = Some e \<Longrightarrow> sv_pc s = SIdle \<Longrightarrow> finishes cfg s"
proof -
  assume s: "server_inv s" "sv_ctx s = Some e" "sv_pc s = SIdle"
  then obtain c where "chan_close (sv_done s) = Value c" by (auto simp: chan_close_def server_inv_def)
  with s have "server_step cfg s (s\<lparr>sv_pc := SFinished, sv_done := c\<rparr>)" by (intro server_step.idle_aborted)
  then show ?thesis by (rule finishes_step) (auto simp: finishes_def)
qed


lemma finishes_waiting: "server_inv s \<Longrightarrow> sv_ctx s = Some e \<Longrightarrow> sv_pc s = SWaiting \<Longrightarrow> finishes cfg s"
proof -
  assume s: "server_inv s" "sv_ctx s = Some e" "sv_pc s = SWaiting"
  then obtain g where g: "workers_upto (sv_worker s) g" by (cases "sv_stream s") (auto simp: server_inv_def)
  have "sv_worker s i = WAbsent" if "g \<le> i" for i using g that by (simp add: workers_upto_def)
  then have "\<forall>i. g \<le> i \<longrightarrow> \<not> live_worker s i" by (simp add: live_worker_def)
  then obtain f c where run: "rtranclp (server_step cfg) s (s\<lparr>sv_worker := f, sv_child := c\<rparr>)" "workers_over f"
    using workers_drain by blast
  let ?t = "s\<lparr>sv_worker := f, sv_child := c\<rparr>"
  let ?u = "?t\<lparr>sv_pc := SDisconnected, sv_child := True\<rparr>"
  let ?v = "?u\<lparr>sv_pc := SIdle\<rparr>"
  have t: "server_inv ?t" using run(1) s(1) by (rule rtranclp_invariant) (rule server_step_inv)
  have tu: "server_step cfg ?t ?u" using s(3) run(2) by (intro server_step.all_returned) (simp_all add: workers_over_def)
  have uv: "server_step cfg ?u ?v" by (rule server_step.disconnected) simp
  have "server_inv ?v" using server_step_inv [OF uv server_step_inv [OF tu t]] .
  then have "finishes cfg ?v" using s(2) by (intro finishes_idle [where e = e]) simp_all
  with run(1) tu uv show ?thesis by (blast intro: finishes_run finishes_step)
qed

lemma finishes_ready: "server_inv s \<Longrightarrow> sv_ctx s = Some e \<Longrightarrow> sv_pc s = SReady \<Longrightarrow> finishes cfg s"
proof -
  assume s: "server_inv s" "sv_ctx s = Some e" "sv_pc s = SReady"
  have "\<exists>e'. fst (dial_from (\<lambda>_ _. Inl Canceled :: go_error + nat) (\<lambda>_. Some Canceled) 0 (bc_urls cfg)) = Inl e'"
    by (cases "bc_urls cfg") (simp_all add: Let_def)
  then obtain e' logs where
    "dialToFirstReachable (\<lambda>_ _. Inl Canceled :: go_error + nat) (\<lambda>_. Some Canceled) cfg = (Inl e', logs)"
    by (metis dialToFirstReachable_def prod.collapse)
  with s(3) have step: "server_step cfg s (s\<lparr>sv_pc := SIdle\<rparr>)" by (rule server_step.dial_fails)
  from s(1) have "server_inv (s\<lparr>sv_pc := SIdle\<rparr>)" by (rule server_step_inv [OF step])
  with s(2) have "finishes cfg (s\<lparr>sv_pc := SIdle\<rparr>)" by (intro finishes_idle [where e = e]) simp_all
  with step show ?thesis by (rule finishes_step)
qed

lemma finishes_exited:
  assumes "server_inv s" "sv_ctx s = Some e" "sv_pc s = SEstablished" "sv_stream s = StExited"
  shows "finishes cfg s"
proof -
  from assms(3,4) have step: "server_step cfg s (s\<lparr>sv_pc := SWaiting\<rparr>)" by (rule server_step.range_ends)
  from assms(1) have "server_inv (s\<lparr>sv_pc := SWaiting\<rparr>)" by (rule server_step_inv [OF step])
  with assms(2) have "finishes cfg (s\<lparr>sv_pc := SWaiting\<rparr>)" by (intro finishes_waiting [where e = e]) simp_all
  with step show ?thesis by (rule finishes_step)
qed

lemma finishes_sending:
  assumes "server_inv s" "sv_ctx s = Some e" "sv_stream s = StSending i n \<and> i < n \<or> sv_stream s = StSelect n"
  shows "finishes cfg s"
proof -
  have pc: "sv_pc s = SEstablished" using assms(1,3) by (auto simp: server_inv_def)
  have step: "server_step cfg s (s\<lparr>sv_stream := StExited\<rparr>)"
    using assms(3) by (rule server_step.stream_stops) (simp add: child_done_def assms(2))
  from assms(1) have "server_inv (s\<lparr>sv_stream := StExited\<rparr>)" by (rule server_step_inv [OF step])
  with assms(2) pc have "finishes cfg (s\<lparr>sv_stream := StExited\<rparr>)" by (intro finishes_exited [where e = e]) simp_all
  with step show ?thesis by (rule finishes_step)
qed

lemma finishes_established:
  assumes "server_inv s" "sv_ctx s = Some e" "sv_pc s = SEstablished"
  shows "finishes cfg s"
proof -
  have sending: "finishes cfg t" if t: "server_inv t" "sv_ctx t = Some e" "sv_stream t = StSending i n" for t i n
  proof (cases "i < n")
    case False
    with t(3) have step: "server_step cfg t (t\<lparr>sv_stream := StSelect n\<rparr>)" by (rule server_step.stream_parks)
    from t(1) have "server_inv (t\<lparr>sv_stream := StSelect n\<rparr>)" by (rule server_step_inv [OF step])
    with t(2) have "finishes cfg (t\<lparr>sv_stream := StSelect n\<rparr>)" by (intro finishes_sending [where e = e]) auto
    with step show ?thesis by (rule finishes_step)
  qed (use t finishes_sending in blast)
  show ?thesis
  proof (cases "sv_stream s")
    case (StTop n)
    then have step: "server_step cfg s (s\<lparr>sv_stream := StSending n (length (sv_handlers s))\<rparr>)"
      by (rule server_step.stream_reads)
    from assms(1) have "server_inv (s\<lparr>sv_stream := StSending n (length (sv_handlers s))\<rparr>)"
      by (rule server_step_inv [OF step])
    with assms(2) have "finishes cfg (s\<lparr>sv_stream := StSending n (length (sv_handlers s))\<rparr>)"
      by (intro sending [of _ n "length (sv_handlers s)"]) simp_all
    with step show ?thesis by (rule finishes_step)
  qed (use assms sending finishes_exited finishes_sending in \<open>auto simp: server_inv_def\<close>)
qed

lemma finishes_start: "server_inv s \<Longrightarrow> sv_ctx s = Some e \<Longrightarrow> sv_pc s = SStart \<Longrightarrow> finishes cfg s"
proof -
  assume s: "server_inv s" "sv_ctx s = Some e" "sv_pc s = SStart"
  then have step: "server_step cfg s (s\<lparr>sv_pc := SReady\<rparr>)" by (intro server_step.first_ready)
  from s(1) have "server_inv (s\<lparr>sv_pc := SReady\<rparr>)" by (rule server_step_inv [OF step])
  with s(2) have "finishes cfg (s\<lparr>sv_pc := SReady\<rparr>)" by (intro finishes_ready [where e = e]) simp_all
  with step show ?thesis by (rule finishes_step)
qed

lemma finishes_disconnected: "server_inv s \<Longrightarrow> sv_ctx s = Some e \<Longrightarrow> sv_pc s = SDisconnected \<Longrightarrow> finishes cfg s"
proof -
  assume s: "server_inv s" "sv_ctx s = Some e" "sv_pc s = SDisconnected"
  then have step: "server_step cfg s (s\<lparr>sv_pc := SIdle\<rparr>)" by (intro server_step.disconnected)
  from s(1) have "server_inv (s\<lparr>sv_pc := SIdle\<rparr>)" by (rule server_step_inv [OF step])
  with s(2) have "finishes cfg (s\<lparr>sv_pc := SIdle\<rparr>)" by (intro finishes_idle [where e = e]) simp_all
  with step show ?thesis by (rule finishes_step)
qed

text \<open>
  C28: Shutdown is never stuck: from every state the server can reach in which the broker's
  context is done, whatever the goroutines are doing, it can go on to the end of the main loop,
  where \<open>WaitToFinish\<close> is released, provided the handlers return.
\<close>

theorem shutdown_can_finish:
  assumes "rtranclp (server_step cfg) s0 s" and "server_start s0" and "sv_ctx s = Some e"
  shows "\<exists>t. rtranclp (server_step cfg) s t \<and> sv_pc t = SFinished \<and> ch_closed (sv_done t)"
proof -
  have inv: "server_inv s" using assms(1,2) by (rule server_run_inv)
  have "finishes cfg s"
  proof (cases "sv_pc s")
    case SFinished
    then show ?thesis by (auto simp: finishes_def)
  qed (use inv assms(3) finishes_start finishes_ready finishes_established finishes_waiting
        finishes_disconnected finishes_idle in blast)+
  then obtain t where t: "rtranclp (server_step cfg) s t" "sv_pc t = SFinished" by (auto simp: finishes_def)
  then have "server_inv t" using assms(1,2) by (meson rtranclp_trans server_run_inv)
  with t show ?thesis by (auto simp: server_inv_def)
qed

section \<open>A run used as example\<close>

text \<open>One handler is registered, the server connects and gives it a goroutine.\<close>

definition demo_server :: server_sys where
  "demo_server = \<lparr>sv_handlers = [], sv_refresh = chan_make 1, sv_caller = (\<lambda>_. NotHandling), sv_ctx = None,
     sv_pc = SStart, sv_child = False, sv_stream = StOff, sv_worker = (\<lambda>_. WAbsent), sv_made = False, sv_done = chan_make 0\<rparr>"

definition demo_registered :: server_sys where
  "demo_registered = demo_server\<lparr>sv_handlers := [PublisherHandler newWriter], sv_refresh := chan_offer (chan_make 1) ()\<rparr>"

definition demo_given :: "stream_pc \<Rightarrow> unit chan \<Rightarrow> server_sys" where
  "demo_given st c = demo_registered\<lparr>sv_pc := SEstablished, sv_stream := st,
     sv_worker := (\<lambda>_. WAbsent)(0 := WCreating), sv_refresh := c\<rparr>"

definition demo_cfg :: broker_config where
  "demo_cfg = Broker [''amqp://localhost'']"

lemma demo_server_start [simp]: "server_start demo_server"
  by (simp add: server_start_def demo_server_def)

lemma demo_registered_run: "rtranclp (server_step cfg) demo_server demo_registered"
proof -
  let ?s1 = "demo_server\<lparr>sv_handlers := [PublisherHandler newWriter], sv_caller := (\<lambda>_. NotHandling)(0 := Appended)\<rparr>"
  have "server_step cfg demo_server ?s1"
    using server_step.handle_append [of demo_server 0 cfg "PublisherHandler newWriter"] by (simp add: demo_server_def)
  moreover have "server_step cfg ?s1 demo_registered"
    using server_step.handle_notify [of ?s1 0 cfg] by (simp add: demo_server_def demo_registered_def fun_upd_idem)
  ultimately show ?thesis using run_end by (simp only: run_step)
qed

lemma demo_served_run: "rtranclp (server_step demo_cfg) demo_server (demo_given (StSelect 1) (chan_make 1))"
proof -
  let ?R = "server_step demo_cfg" and ?full = "chan_offer (chan_make 1) ()"
  let ?s1 = "demo_registered\<lparr>sv_pc := SReady\<rparr>"
  let ?s3 = "(connected ?s1)\<lparr>sv_stream := StSending 0 1\<rparr>"
  have "?R demo_registered ?s1"
    by (rule server_step.first_ready) (simp add: demo_registered_def demo_server_def)
  moreover have "?R ?s1 (connected ?s1)"
    by (rule server_step.dial_connects [where dial = "\<lambda>_ _. Inr 0" and ctx = "\<lambda>_. None"])
      (simp_all add: dialToFirstReachable_def demo_cfg_def Broker_def Let_def)
  moreover have "?R (connected ?s1) ?s3"
    using server_step.stream_reads [of "connected ?s1" 0 demo_cfg]
    by (simp add: connected_def demo_registered_def)
  moreover have "?R ?s3 (demo_given (StSending 1 1) ?full)"
    using server_step.stream_gives [of ?s3 0 1 demo_cfg]
    by (simp add: connected_def demo_registered_def demo_given_def demo_server_def)
  moreover have "?R (demo_given (StSending 1 1) ?full) (demo_given (StSelect 1) ?full)"
    using server_step.stream_parks [of "demo_given (StSending 1 1) ?full" 1 1 demo_cfg]
    by (simp add: demo_given_def demo_registered_def demo_server_def)
  moreover have "?R (demo_given (StSelect 1) ?full) (demo_given (StTop 1) (chan_make 1))"
    using server_step.stream_wakes [of "demo_given (StSelect 1) ?full" 1 "Some ()" "chan_make 1" demo_cfg]
    by (simp add: demo_given_def demo_registered_def demo_server_def chan_recv_def chan_offer_def chan_make_def)
  moreover have "?R (demo_given (StTop 1) (chan_make 1)) (demo_given (StSending 1 1) (chan_make 1))"
    using server_step.stream_reads [of "demo_given (StTop 1) (chan_make 1)" 1 demo_cfg]
    by (simp add: demo_given_def demo_registered_def demo_server_def)
  moreover have "?R (demo_given (StSending 1 1) (chan_make 1)) (demo_given (StSelect 1) (chan_make 1))"
    using server_step.stream_parks [of "demo_given (StSending 1 1) (chan_make 1)" 1 1 demo_cfg]
    by (simp add: demo_given_def demo_registered_def demo_server_def)
  ultimately have "rtranclp ?R demo_registered (demo_given (StSelect 1) (chan_make 1))"
    using run_end by (simp only: run_step)
  then show ?thesis using demo_registered_run by (meson rtranclp_trans)
qed

theorem server_follows_document_witness:
  "documented_edge (documented_state demo_registered) (documented_state (demo_registered\<lparr>sv_pc := SReady\<rparr>))"
proof -
  have "server_step demo_cfg demo_registered (demo_registered\<lparr>sv_pc := SReady\<rparr>)"
    by (rule server_step.first_ready) (simp add: demo_registered_def demo_server_def)
  from server_follows_document [OF demo_registered_run demo_server_start this] show ?thesis
    by (simp add: documented_state_def demo_registered_def demo_server_def)
qed

theorem every_handler_served_witness:
  "sv_worker (demo_given (StSelect 1) (chan_make 1)) 0 \<noteq> WAbsent"
  using every_handler_served [OF demo_served_run demo_server_start, of 1]
  by (auto simp: demo_given_def demo_registered_def demo_server_def)

theorem no_goroutine_outlives_connection_witness:
  "\<not> ch_closed (sv_done (demo_given (StSelect 1) (chan_make 1)))"
  using no_goroutine_outlives_connection [OF demo_served_run demo_server_start]
  by (simp add: demo_given_def)

text \<open>The same connection after its only handler failed.\<close>

definition demo_failed :: server_sys where
  "demo_failed = (demo_given (StSelect 1) (chan_make 1))\<lparr>sv_worker := (\<lambda>_. WAbsent)(0 := WEnded), sv_child := True\<rparr>"

lemma demo_failed_run: "rtranclp (server_step demo_cfg) demo_server demo_failed"
proof -
  let ?s = "demo_given (StSelect 1) (chan_make 1)"
  have "server_step demo_cfg ?s demo_failed"
    using server_step.channel_fails [of ?s 0 "Some Canceled" named_broker Canceled "[]" demo_cfg]
    by (simp add: demo_failed_def demo_given_def createChannel_def demo_registered_def demo_server_def)
  with demo_served_run show ?thesis by (rule rtranclp.rtrancl_into_rtrancl)
qed

theorem first_stop_cancels_all_witness: "child_done demo_failed"
  using first_stop_cancels_all [OF demo_failed_run demo_server_start, of 0]
  by (simp add: demo_failed_def demo_given_def)

theorem shutdown_can_finish_witness:
  "\<exists>t. rtranclp (server_step demo_cfg) (demo_given (StSelect 1) (chan_make 1)\<lparr>sv_ctx := Some Canceled\<rparr>) t \<and> sv_pc t = SFinished"
proof -
  let ?s = "demo_given (StSelect 1) (chan_make 1)"
  have "server_step demo_cfg ?s (?s\<lparr>sv_ctx := Some Canceled\<rparr>)"
    by (rule server_step.shutdown) (simp add: demo_given_def demo_registered_def demo_server_def)
  with demo_served_run have "rtranclp (server_step demo_cfg) demo_server (?s\<lparr>sv_ctx := Some Canceled\<rparr>)"
    by (rule rtranclp.rtrancl_into_rtrancl)
  from shutdown_can_finish [OF this demo_server_start] show ?thesis by auto
qed

end
