(* ===== verification/Rpc.thy ===== *)
theory Rpc
  imports Server Publisher
begin

text \<open>
  \<open>rpc.go\<close>: remote calls over a publisher and a sink. The message of a call and the way a
  reply is read are functions; the callers, the sink's handler \<open>onMessage\<close> and the goroutine
  that waits for the server to finish are a step relation that runs along with the server's and
  the publisher's.
\<close>

section \<open>Building the RPC and the message of a call\<close>

definition rpc_writer :: "string \<Rightarrow> string \<Rightarrow> writer_config" where
  "rpc_writer target_exchange target_key = DefaultKey target_key (DefaultDirect target_exchange newWriter)"

definition BuildRPC :: "broker_config \<Rightarrow> string \<Rightarrow> string \<Rightarrow> string \<Rightarrow> state_handler list \<Rightarrow> state_handler list" where
  "BuildRPC bc queue target_exchange target_key hs =
     sink_HandlerFunc (server_Sink bc queue) (writer_Create (rpc_writer target_exchange target_key) hs)"

text \<open>
  The message \<open>Raw\<close> sends: what \<open>Prepare\<close> puts into it is overwritten by the caller's
  publishing as a whole. \<open>uuid\<close> and \<open>now\<close> are what the library functions return.
\<close>

definition rpc_Raw :: "writer_config \<Rightarrow> string \<Rightarrow> string \<Rightarrow> stamp \<Rightarrow> shared_pub \<Rightarrow> message" where
  "rpc_Raw wc queue uuid now msg =
     (Prepare wc now)\<lparr>msg_msg := msg\<lparr>p_CorrelationId := uuid, p_MessageId := uuid, p_ReplyTo := queue, p_Timestamp := now\<rparr>\<rparr>"

definition rpc_Bytes :: "writer_config \<Rightarrow> string \<Rightarrow> string \<Rightarrow> stamp \<Rightarrow> bytes \<Rightarrow> message" where
  "rpc_Bytes wc queue uuid now contents = rpc_Raw wc queue uuid now ((zero_publishing None)\<lparr>p_Body := contents\<rparr>)"

definition rpc_Content :: "writer_config \<Rightarrow> string \<Rightarrow> string \<Rightarrow> stamp \<Rightarrow> bytes \<Rightarrow> string \<Rightarrow> message" where
  "rpc_Content wc queue uuid now contents mime =
     rpc_Raw wc queue uuid now ((zero_publishing None)\<lparr>p_Body := contents, p_ContentType := mime\<rparr>)"

definition rpc_JSON ::
    "('o \<Rightarrow> go_error + bytes) \<Rightarrow> writer_config \<Rightarrow> string \<Rightarrow> string \<Rightarrow> stamp \<Rightarrow> 'o \<Rightarrow> message outcome" where
  "rpc_JSON marshal wc queue uuid now obj =
     (case marshal obj of
        Inl e \<Rightarrow> Panic (error_text e)
      | Inr contents \<Rightarrow> Value (rpc_Raw wc queue uuid now
          ((zero_publishing None)\<lparr>p_Body := contents, p_ContentType := ''application/json''\<rparr>)))"

section \<open>Reading a reply\<close>

text \<open>\<open>Stuck\<close> is a reader that waits.\<close>

definition Reply_Bytes :: "msg_in chan \<Rightarrow> (go_error + bytes) outcome" where
  "Reply_Bytes c = (case chan_recv c of
     None \<Rightarrow> Stuck
   | Some (None, _) \<Rightarrow> Value (Inl (Err ''closed channel''))
   | Some (Some msg, _) \<Rightarrow> Value (Inr (d_Body msg)))"

definition Reply_JSON :: "(bytes \<Rightarrow> go_error + 'o) \<Rightarrow> msg_in chan \<Rightarrow> (go_error + 'o) outcome" where
  "Reply_JSON unmarshal c = bind_outcome (Reply_Bytes c) (\<lambda>r.
     Value (case r of Inl e \<Rightarrow> Inl e | Inr contents \<Rightarrow> unmarshal contents))"

section \<open>The goroutines\<close>

text \<open>
  The handler is outside, or between the unlock and the send with the channel and the message it
  found. A caller in \<open>Raw\<close> has registered its call, or waits on the channel \<open>ms.Send()\<close> returned,
  or has its \<open>Reply\<close>; \<open>rp_raw\<close> has its place by the channel of the call. \<open>rp_calls\<close> is not in the
  code: the identifier and the channel of every call so far.
\<close>

datatype rpc_place = RIdle | RTaken nat msg_in
datatype raw_place = RawNone | RawRegistered string | RawSending nat | RawReturned

record rpc_sys =
  rp_server :: server_sys
  rp_writer :: writer_sys
  rp_corr :: "nat gomap"
  rp_chan :: "nat \<Rightarrow> msg_in chan"
  rp_next :: nat
  rp_place :: rpc_place
  rp_raw :: "nat \<Rightarrow> raw_place"
  rp_down :: bool
  rp_calls :: "(string \<times> nat) list"

definition rpc_start :: "rpc_sys \<Rightarrow> bool" where
  "rpc_start s \<longleftrightarrow> server_start (rp_server s) \<and> writer_start (rp_writer s) \<and> rp_corr s = [] \<and> rp_place s = RIdle \<and>
     (\<forall>ch. rp_raw s ch = RawNone) \<and> \<not> rp_down s \<and> rp_calls s = []"

definition rpc_register :: "string \<Rightarrow> rpc_sys \<Rightarrow> rpc_sys" where
  "rpc_register uuid s = s\<lparr>rp_corr := map_put (Some (rp_corr s)) uuid (rp_next s),
     rp_chan := (rp_chan s)(rp_next s := chan_make 1), rp_next := Suc (rp_next s),
     rp_raw := (rp_raw s)(rp_next s := RawRegistered uuid), rp_calls := rp_calls s @ [(uuid, rp_next s)]\<rparr>"

text \<open>\<open>onMessage\<close> in its two parts: look up and delete under the lock, then send and close.\<close>

definition onMessage_take :: "msg_in \<Rightarrow> rpc_sys \<Rightarrow> rpc_sys" where
  "onMessage_take msg s =
     (case map_get (Some (rp_corr s)) (d_CorrelationId msg) of
        None \<Rightarrow> s
      | Some ch \<Rightarrow> s\<lparr>rp_corr := AList.delete (d_CorrelationId msg) (rp_corr s), rp_place := RTaken ch msg\<rparr>)"

definition onMessage_send :: "nat \<Rightarrow> msg_in \<Rightarrow> rpc_sys \<Rightarrow> rpc_sys outcome" where
  "onMessage_send ch msg s =
     bind_outcome (chan_send (rp_chan s ch) msg) (\<lambda>c.
     bind_outcome (chan_close c) (\<lambda>c'.
       Value (s\<lparr>rp_chan := (rp_chan s)(ch := c'), rp_place := RIdle\<rparr>)))"

fun close_all :: "nat list \<Rightarrow> (nat \<Rightarrow> 'a chan) \<Rightarrow> (nat \<Rightarrow> 'a chan) outcome" where
  "close_all [] f = Value f"
| "close_all (ch # chs) f = bind_outcome (chan_close (f ch)) (\<lambda>c. close_all chs (f(ch := c)))"

text \<open>The goroutine of \<open>BuildRPC\<close>, after \<open>WaitToFinish\<close>.\<close>

definition rpc_release :: "rpc_sys \<Rightarrow> rpc_sys outcome" where
  "rpc_release s = bind_outcome (close_all (map snd (rp_corr s)) (rp_chan s))
     (\<lambda>f. Value (s\<lparr>rp_chan := f, rp_down := True\<rparr>))"

text \<open>
  What an RPC runs with: the broker its publisher talks to, the configuration of the server, the
  places of the RPC's sink and publisher among the server's handlers, the publisher's
  configuration and the queue for replies.
\<close>

record rpc_setup =
  ro_broker :: broker
  ro_server :: broker_config
  ro_sink :: nat
  ro_publisher :: nat
  ro_writer :: writer_config
  ro_queue :: string

text \<open>
  A handler's goroutine is in \<open>ChannelReady\<close> while \<open>onMessage\<close> runs or the publisher is not
  offline, and does not return before them. A new identifier is one no call had before. Only who
  has a \<open>Reply\<close> reads from its channel.
\<close>

inductive rpc_step :: "rpc_setup \<Rightarrow> rpc_sys \<Rightarrow> rpc_sys \<Rightarrow> bool" for ro :: rpc_setup where
  rpc_server: "server_step (ro_server ro) (rp_server s) t \<Longrightarrow>
    rp_place s \<noteq> RIdle \<longrightarrow> sv_worker t (ro_sink ro) = WServing \<Longrightarrow>
    ws_pc (rp_writer s) \<noteq> Offline \<longrightarrow> sv_worker t (ro_publisher ro) = WServing \<Longrightarrow>
    rpc_step ro s (s\<lparr>rp_server := t\<rparr>)"
| rpc_publisher: "writer_step (ro_broker ro) (ro_writer ro) (rp_writer s) u \<Longrightarrow>
    ws_pc u \<noteq> Offline \<longrightarrow> sv_worker (rp_server s) (ro_publisher ro) = WServing \<Longrightarrow>
    rpc_step ro s (s\<lparr>rp_writer := u\<rparr>)"
| rpc_call: "uuid \<notin> fst ` set (rp_calls s) \<Longrightarrow> rpc_step ro s (rpc_register uuid s)"
| rpc_send: "rp_raw s ch = RawRegistered uuid \<Longrightarrow>
    writer_Publish (ro_writer ro) (rpc_Raw (ro_writer ro) (ro_queue ro) uuid now msg) (ws_world (rp_writer s)) = Value ((d, e), w) \<Longrightarrow>
    rpc_step ro s (s\<lparr>rp_writer := (rp_writer s)\<lparr>ws_world := w\<rparr>, rp_raw := (rp_raw s)(ch := RawSending d)\<rparr>)"
| rpc_sent: "rp_raw s ch = RawSending d \<Longrightarrow> chan_recv (ww_done (ws_world (rp_writer s)) d) = Some (x, c) \<Longrightarrow>
    rpc_step ro s (s\<lparr>rp_raw := (rp_raw s)(ch := RawReturned)\<rparr>)"
| rpc_message: "sv_worker (rp_server s) (ro_sink ro) = WServing \<Longrightarrow> rp_place s = RIdle \<Longrightarrow>
    rpc_step ro s (onMessage_take msg s)"
| rpc_deliver: "rp_place s = RTaken ch msg \<Longrightarrow> onMessage_send ch msg s = Value t \<Longrightarrow> rpc_step ro s t"
| rpc_finish: "ch_closed (sv_done (rp_server s)) \<Longrightarrow> \<not> rp_down s \<Longrightarrow> rpc_release s = Value t \<Longrightarrow> rpc_step ro s t"
| rpc_read: "rp_raw s ch = RawReturned \<Longrightarrow> chan_recv (rp_chan s ch) = Some (x, c) \<Longrightarrow>
    rpc_step ro s (s\<lparr>rp_chan := (rp_chan s)(ch := c)\<rparr>)"

section \<open>The invariant\<close>

text \<open>
  A call that is still in the table has an empty channel, open until the release; one that is
  not was taken by the handler or has its closed channel, empty or with a reply to this call.
\<close>

definition call_ok :: "rpc_sys \<Rightarrow> string \<Rightarrow> nat \<Rightarrow> bool" where
  "call_ok s uuid ch \<longleftrightarrow>
     (if (uuid, ch) \<in> set (rp_corr s)
      then ch_buf (rp_chan s ch) = [] \<and> ch_cap (rp_chan s ch) = 1 \<and> (\<not> rp_down s \<longrightarrow> \<not> ch_closed (rp_chan s ch))
      else (\<exists>msg. rp_place s = RTaken ch msg) \<or>
        (ch_closed (rp_chan s ch) \<and> (ch_buf (rp_chan s ch) = [] \<or>
           (\<exists>msg. ch_buf (rp_chan s ch) = [msg] \<and> d_CorrelationId msg = uuid))))"

definition taken_ok :: "nat \<Rightarrow> rpc_sys \<Rightarrow> bool" where
  "taken_ok k s \<longleftrightarrow> (\<forall>ch msg. rp_place s = RTaken ch msg \<longrightarrow>
     sv_worker (rp_server s) k = WServing \<and> (d_CorrelationId msg, ch) \<in> set (rp_calls s) \<and>
     ch \<notin> snd ` set (rp_corr s) \<and> rp_chan s ch = chan_make 1)"

definition table_ok :: "rpc_sys \<Rightarrow> bool" where
  "table_ok s \<longleftrightarrow> distinct (map fst (rp_calls s)) \<and> distinct (map snd (rp_calls s)) \<and>
     distinct (map fst (rp_corr s)) \<and> set (rp_corr s) \<subseteq> set (rp_calls s) \<and>
     (\<forall>ch \<in> snd ` set (rp_calls s). ch < rp_next s)"

definition rpc_inv :: "nat \<Rightarrow> rpc_sys \<Rightarrow> bool" where
  "rpc_inv k s \<longleftrightarrow> server_inv (rp_server s) \<and> (rp_down s \<longrightarrow> sv_pc (rp_server s) = SFinished) \<and>
     table_ok s \<and> taken_ok k s \<and> (\<forall>uuid ch. (uuid, ch) \<in> set (rp_calls s) \<longrightarrow> call_ok s uuid ch)"

lemma rpc_start_inv: "rpc_start s \<Longrightarrow> rpc_inv k s"
  by (simp add: rpc_start_def rpc_inv_def table_ok_def taken_ok_def server_start_inv)

lemma finished_stays: "server_step cfg s t \<Longrightarrow> sv_pc s = SFinished \<Longrightarrow> server_inv s \<Longrightarrow> sv_pc t = SFinished"
  by (induction rule: server_step.induct) auto

lemma finished_over: "server_inv s \<Longrightarrow> sv_pc s = SFinished \<Longrightarrow> sv_worker s k \<noteq> WServing"
  using not_connected_over [of s] workers_over_live(2) [of "sv_worker s" k] by fastforce

section \<open>The invariant is kept\<close>

lemma update_new: "uuid \<notin> fst ` set al \<Longrightarrow> AList.update uuid ch al = al @ [(uuid, ch)]"
  by (induction al) auto

lemma corr_new: "table_ok s \<Longrightarrow> uuid \<notin> fst ` set (rp_calls s) \<Longrightarrow> uuid \<notin> fst ` set (rp_corr s)"
  unfolding table_ok_def by blast

lemma rpc_register_corr: "table_ok s \<Longrightarrow> uuid \<notin> fst ` set (rp_calls s) \<Longrightarrow>
    rp_corr (rpc_register uuid s) = rp_corr s @ [(uuid, rp_next s)]"
  using corr_new [of s uuid] by (simp add: rpc_register_def map_put_def update_new)

lemma rpc_register_simps [simp]:
  "rp_server (rpc_register uuid s) = rp_server s" "rp_place (rpc_register uuid s) = rp_place s"
  "rp_down (rpc_register uuid s) = rp_down s" "rp_calls (rpc_register uuid s) = rp_calls s @ [(uuid, rp_next s)]"
  "rp_next (rpc_register uuid s) = Suc (rp_next s)"
  "rp_chan (rpc_register uuid s) = (rp_chan s)(rp_next s := chan_make 1)"
  "rp_raw (rpc_register uuid s) = (rp_raw s)(rp_next s := RawRegistered uuid)"
  "rp_writer (rpc_register uuid s) = rp_writer s"
  by (simp_all add: rpc_register_def)

text \<open>A channel belongs to one call.\<close>

lemma call_channel_unique:
  "table_ok s \<Longrightarrow> (u, ch) \<in> set (rp_calls s) \<Longrightarrow> (u', ch) \<in> set (rp_calls s) \<Longrightarrow> u' = u"
  unfolding table_ok_def by (metis distinct_map eq_snd_iff inj_onD fst_conv)

lemma old_channel: "table_ok s \<Longrightarrow> (u, ch) \<in> set (rp_calls s) \<Longrightarrow> ch \<noteq> rp_next s"
  unfolding table_ok_def by force

lemma register_inv:
  assumes inv: "rpc_inv k s" and new: "uuid \<notin> fst ` set (rp_calls s)"
  shows "rpc_inv k (rpc_register uuid s)"
proof -
  let ?t = "rpc_register uuid s"
  have tab: "table_ok s" and taken: "taken_ok k s" using inv by (simp_all add: rpc_inv_def)
  note corr = rpc_register_corr [OF tab new]
  have fresh: "rp_next s \<notin> snd ` set (rp_calls s)" using tab by (auto simp: table_ok_def)
  have "table_ok ?t"
    using tab new fresh corr corr_new [OF tab new] by (auto simp: table_ok_def)
  moreover have "taken_ok k ?t"
    using taken corr by (auto simp: taken_ok_def dest: old_channel [OF tab])
  moreover have "call_ok ?t u ch" if "(u, ch) \<in> set (rp_calls ?t)" for u ch
  proof (cases "(u, ch) = (uuid, rp_next s)")
    case True
    then show ?thesis by (simp add: call_ok_def corr)
  next
    case False
    with that have old: "(u, ch) \<in> set (rp_calls s)" by auto
    then have "call_ok s u ch" using inv by (simp add: rpc_inv_def)
    with False old_channel [OF tab old] show ?thesis by (auto simp: call_ok_def corr)
  qed
  ultimately show ?thesis using inv by (simp add: rpc_inv_def)
qed

lemma set_delete: "set (AList.delete u al) = {p \<in> set al. fst p \<noteq> u}"
  by (auto simp: AList.delete_eq)

lemma take_inv:
  assumes inv: "rpc_inv k s" and serving: "sv_worker (rp_server s) k = WServing" and idle: "rp_place s = RIdle"
  shows "rpc_inv k (onMessage_take msg s)"
proof (cases "map_get (Some (rp_corr s)) (d_CorrelationId msg)")
  case None
  with inv show ?thesis by (simp add: onMessage_take_def)
next
  case (Some ch)
  let ?u = "d_CorrelationId msg" and ?t = "onMessage_take msg s"
  have tab: "table_ok s" using inv by (simp add: rpc_inv_def)
  have mem: "(?u, ch) \<in> set (rp_corr s)" using Some by (auto simp: map_get_def dest: map_of_SomeD)
  then have call: "(?u, ch) \<in> set (rp_calls s)" using tab by (auto simp: table_ok_def)
  have t: "rp_corr ?t = AList.delete ?u (rp_corr s)" "rp_place ?t = RTaken ch msg" "rp_server ?t = rp_server s"
    "rp_chan ?t = rp_chan s" "rp_calls ?t = rp_calls s" "rp_next ?t = rp_next s" "rp_down ?t = rp_down s"
    using Some by (simp_all add: onMessage_take_def)
  have down: "\<not> rp_down s" using inv serving finished_over by (auto simp: rpc_inv_def)
  have "call_ok s ?u ch" using inv call by (simp add: rpc_inv_def)
  with mem down have chan: "rp_chan s ch = chan_make 1" by (simp add: call_ok_def chan_make_def)
  have "table_ok ?t" using tab by (auto simp: table_ok_def t set_delete distinct_delete)
  moreover have "ch \<notin> snd ` set (rp_corr ?t)"
    using call_channel_unique [OF tab call] tab by (auto simp: t set_delete table_ok_def)
  then have "taken_ok k ?t" using serving call chan by (simp add: taken_ok_def t)
  moreover have "call_ok ?t u c" if "(u, c) \<in> set (rp_calls s)" for u c
  proof (cases "c = ch")
    case True
    with that call_channel_unique [OF tab call] have "u = ?u" by simp
    with True show ?thesis by (simp add: call_ok_def t set_delete)
  next
    case False
    then have "u = ?u \<Longrightarrow> False" if "(u, c) \<in> set (rp_corr s)"
      using that mem tab by (metis table_ok_def distinct_map inj_onD fst_conv snd_conv)
    moreover have "call_ok s u c" using inv that by (simp add: rpc_inv_def)
    ultimately show ?thesis using idle by (auto simp: call_ok_def t set_delete split: if_splits)
  qed
  ultimately show ?thesis using inv by (simp add: rpc_inv_def t)
qed

lemma onMessage_send_result:
  "rp_chan s ch = chan_make 1 \<Longrightarrow> onMessage_send ch msg s =
     Value (s\<lparr>rp_chan := (rp_chan s)(ch := \<lparr>ch_cap = 1, ch_buf = [msg], ch_closed = True\<rparr>), rp_place := RIdle\<rparr>)"
  by (simp add: onMessage_send_def chan_send_def chan_close_def chan_make_def)

lemma deliver_inv:
  assumes inv: "rpc_inv k s" and place: "rp_place s = RTaken ch msg" and t: "onMessage_send ch msg s = Value t"
  shows "rpc_inv k t"
proof -
  have taken: "(d_CorrelationId msg, ch) \<in> set (rp_calls s)" "ch \<notin> snd ` set (rp_corr s)" "rp_chan s ch = chan_make 1"
    and tab: "table_ok s"
    using inv place by (simp_all add: rpc_inv_def taken_ok_def)
  from t taken(3) have t: "t = s\<lparr>rp_chan := (rp_chan s)(ch := \<lparr>ch_cap = 1, ch_buf = [msg], ch_closed = True\<rparr>), rp_place := RIdle\<rparr>"
    by (simp add: onMessage_send_result)
  have "call_ok t u c" if "(u, c) \<in> set (rp_calls s)" for u c
  proof (cases "c = ch")
    case True
    then have "u = d_CorrelationId msg" "(u, c) \<notin> set (rp_corr s)"
      using that call_channel_unique [OF tab taken(1)] taken(2) by force+
    with True t show ?thesis by (simp add: call_ok_def)
  next
    case False
    from inv that have "call_ok s u c" by (simp add: rpc_inv_def)
    with False t place show ?thesis by (auto simp: call_ok_def)
  qed
  with inv t show ?thesis by (auto simp: rpc_inv_def table_ok_def taken_ok_def)
qed

lemma close_all_open:
  "distinct chs \<Longrightarrow> \<forall>ch \<in> set chs. \<not> ch_closed (f ch) \<Longrightarrow>
   close_all chs f = Value (\<lambda>ch. if ch \<in> set chs then (f ch)\<lparr>ch_closed := True\<rparr> else f ch)"
proof (induction chs arbitrary: f)
  case (Cons ch chs)
  then have "close_all chs (f(ch := (f ch)\<lparr>ch_closed := True\<rparr>)) =
      Value (\<lambda>c. if c \<in> set chs then ((f(ch := (f ch)\<lparr>ch_closed := True\<rparr>)) c)\<lparr>ch_closed := True\<rparr>
                 else (f(ch := (f ch)\<lparr>ch_closed := True\<rparr>)) c)"
    by (intro Cons.IH) auto
  with Cons.prems show ?case by (auto simp: chan_close_def fun_eq_iff)
qed simp

lemma corr_channels_distinct: "table_ok s \<Longrightarrow> distinct (map snd (rp_corr s))"
proof -
  assume tab: "table_ok s"
  then have "distinct (rp_corr s)" by (simp add: table_ok_def distinct_map)
  moreover have "inj_on snd (set (rp_corr s))"
    using tab by (auto simp: table_ok_def distinct_map intro: inj_on_subset)
  ultimately show ?thesis by (simp add: distinct_map)
qed

lemma rpc_release_result:
  assumes inv: "rpc_inv k s" and up: "\<not> rp_down s"
  shows "rpc_release s = Value (s\<lparr>rp_chan := (\<lambda>ch. if ch \<in> snd ` set (rp_corr s)
      then (rp_chan s ch)\<lparr>ch_closed := True\<rparr> else rp_chan s ch), rp_down := True\<rparr>)"
proof -
  have tab: "table_ok s" using inv by (simp add: rpc_inv_def)
  have "\<not> ch_closed (rp_chan s ch)" if m: "ch \<in> snd ` set (rp_corr s)" for ch
  proof -
    obtain u where u: "(u, ch) \<in> set (rp_corr s)" using m by auto
    with tab have "(u, ch) \<in> set (rp_calls s)" by (auto simp: table_ok_def)
    with inv have "call_ok s u ch" by (simp add: rpc_inv_def)
    with u up show ?thesis by (simp add: call_ok_def)
  qed
  with close_all_open [OF corr_channels_distinct [OF tab], of "rp_chan s"] show ?thesis
    by (simp add: rpc_release_def)
qed

lemma finished_idle: "rpc_inv k s \<Longrightarrow> sv_pc (rp_server s) = SFinished \<Longrightarrow> rp_place s = RIdle"
  using finished_over [of "rp_server s" k] by (cases "rp_place s") (auto simp: rpc_inv_def taken_ok_def)

lemma finish_inv:
  assumes inv: "rpc_inv k s" and fin: "ch_closed (sv_done (rp_server s))" and up: "\<not> rp_down s"
    and t: "rpc_release s = Value t"
  shows "rpc_inv k t"
proof -
  have pc: "sv_pc (rp_server s) = SFinished" using inv fin by (simp add: rpc_inv_def server_inv_def)
  have idle: "rp_place s = RIdle" using inv pc by (rule finished_idle)
  have tab: "table_ok s" using inv by (simp add: rpc_inv_def)
  from t rpc_release_result [OF inv up] have t: "t = s\<lparr>rp_chan := (\<lambda>ch. if ch \<in> snd ` set (rp_corr s)
      then (rp_chan s ch)\<lparr>ch_closed := True\<rparr> else rp_chan s ch), rp_down := True\<rparr>" by simp
  have "call_ok t u ch" if "(u, ch) \<in> set (rp_calls s)" for u ch
  proof -
    from inv that have "call_ok s u ch" by (simp add: rpc_inv_def)
    with idle t show ?thesis by (auto simp: call_ok_def split: if_splits)
  qed
  with inv t pc idle show ?thesis by (auto simp: rpc_inv_def table_ok_def taken_ok_def)
qed

lemma read_inv:
  assumes inv: "rpc_inv k s" and recv: "chan_recv (rp_chan s ch) = Some (x, c)"
  shows "rpc_inv k (s\<lparr>rp_chan := (rp_chan s)(ch := c)\<rparr>)"
proof -
  let ?t = "s\<lparr>rp_chan := (rp_chan s)(ch := c)\<rparr>"
  have c: "ch_cap c = ch_cap (rp_chan s ch)" "ch_closed c = ch_closed (rp_chan s ch)"
    "ch_buf c = tl (ch_buf (rp_chan s ch))" "ch_buf (rp_chan s ch) = [] \<Longrightarrow> ch_closed (rp_chan s ch)"
    using recv by (auto simp: chan_recv_def split: list.splits if_splits)
  have "call_ok ?t u a" if "(u, a) \<in> set (rp_calls s)" for u a
  proof -
    from inv that have "call_ok s u a" by (simp add: rpc_inv_def)
    with c show ?thesis by (auto simp: call_ok_def split: if_splits)
  qed
  moreover have "rp_place s = RTaken a msg \<Longrightarrow> a \<noteq> ch" for a msg
    using inv c(4) by (auto simp: rpc_inv_def taken_ok_def)
  then have "taken_ok k ?t" using inv by (auto simp: rpc_inv_def taken_ok_def)
  ultimately show ?thesis using inv by (simp add: rpc_inv_def table_ok_def)
qed

text \<open>Steps of the callers and the publisher leave the table and the reply channels alone.\<close>

lemma other_parts_inv [simp]:
  "rpc_inv k (s\<lparr>rp_writer := u\<rparr>) = rpc_inv k s" "rpc_inv k (s\<lparr>rp_raw := f\<rparr>) = rpc_inv k s"
  by (simp_all add: rpc_inv_def table_ok_def taken_ok_def call_ok_def)

lemma rpc_step_inv: "rpc_step ro s t \<Longrightarrow> rpc_inv (ro_sink ro) s \<Longrightarrow> rpc_inv (ro_sink ro) t"
proof (induction rule: rpc_step.induct)
  case (rpc_server s t)
  then have "server_inv t" "rp_down s \<longrightarrow> sv_pc t = SFinished"
    by (auto simp: rpc_inv_def intro: server_step_inv finished_stays)
  with rpc_server(2,4) show ?case
    by (auto simp: rpc_inv_def table_ok_def taken_ok_def call_ok_def)
next
  case (rpc_send s ch uuid now msg d e w)
  have "rpc_inv (ro_sink ro) ((s\<lparr>rp_writer := (rp_writer s)\<lparr>ws_world := w\<rparr>\<rparr>)\<lparr>rp_raw := (rp_raw s)(ch := RawSending d)\<rparr>)"
    using rpc_send(3) by (simp only: other_parts_inv)
  then show ?case by simp
qed (auto intro: register_inv take_inv deliver_inv finish_inv read_inv)

interpretation rpc_runs: invariant_system rpc_start "rpc_step ro" "rpc_inv (ro_sink ro)" for ro
  by unfold_locales (auto intro: rpc_start_inv rpc_step_inv)

lemmas rpc_run_inv = rpc_runs.reachable_inv

text \<open>
  The publisher works only while its goroutine serves, and a caller that waits in \<open>Raw\<close> waits on
  a channel the writer gave out.
\<close>

definition raw_ok :: "writer_world \<Rightarrow> raw_place \<Rightarrow> bool" where
  "raw_ok w r \<longleftrightarrow> (\<forall>d. r = RawSending d \<longrightarrow> d < ww_next w \<and> ch_buf (ww_done w d) = [])"

definition sending_inv :: "nat \<Rightarrow> rpc_sys \<Rightarrow> bool" where
  "sending_inv kp s \<longleftrightarrow> (ws_pc (rp_writer s) \<noteq> Offline \<longrightarrow> sv_worker (rp_server s) kp = WServing) \<and>
     (\<forall>ch. raw_ok (ws_world (rp_writer s)) (rp_raw s ch))"

lemma raw_ok_step: "writer_step b wc u v \<Longrightarrow> raw_ok (ws_world u) r \<Longrightarrow> raw_ok (ws_world v) r"
  using writer_step_kept [of b wc u v] writer_step_done_empty [of b wc u v]
  by (fastforce simp: raw_ok_def done_kept_def)

lemma sending_start: "rpc_start s \<Longrightarrow> sending_inv kp s"
  by (simp add: rpc_start_def sending_inv_def writer_start_def raw_ok_def)

lemma publish_gives_channel:
  "writer_Publish wc ms w = Value ((d, e), w') \<Longrightarrow> d = ww_next w \<and> d < ww_next w' \<and> ch_buf (ww_done w' d) = [] \<and>
     (wc_middleware wc = [] \<longrightarrow> \<not> ch_closed (ww_done w' d))"
  by (auto simp: writer_Publish_cases bind_outcome_Value_iff make_done_def stream_put_def chan_make_def split: if_splits)

lemma sending_step: "rpc_step ro s t \<Longrightarrow> sending_inv (ro_publisher ro) s \<Longrightarrow> sending_inv (ro_publisher ro) t"
proof (induction rule: rpc_step.induct)
  case (rpc_publisher s u)
  then show ?case using raw_ok_step [OF rpc_publisher(1)] by (simp add: sending_inv_def)
next
  case (rpc_send s ch uuid now msg d e w)
  have "writer_step (ro_broker ro) (ro_writer ro) (rp_writer s) ((rp_writer s)\<lparr>ws_world := w\<rparr>)"
    using rpc_send(2) by (rule writer_step.client_publish)
  from raw_ok_step [OF this] publish_gives_channel [OF rpc_send(2)] rpc_send(3) show ?case
    by (auto simp: sending_inv_def raw_ok_def)
next
  case (rpc_message s msg)
  then show ?case by (auto simp: sending_inv_def onMessage_take_def split: option.split)
next
  case (rpc_deliver s ch msg t)
  then show ?case by (auto simp: sending_inv_def onMessage_send_def bind_outcome_Value_iff)
next
  case (rpc_finish s t)
  then show ?case by (auto simp: sending_inv_def rpc_release_def bind_outcome_Value_iff)
qed (auto simp: sending_inv_def raw_ok_def)

interpretation rpc_senders: invariant_system rpc_start "rpc_step ro" "sending_inv (ro_publisher ro)" for ro
  by unfold_locales (auto intro: sending_start sending_step)

section \<open>Properties of the goroutines\<close>

text \<open>
  C29: \<open>onMessage\<close> and the release never panic: a channel the handler took from the table is
  open and empty, the channels in the table are open until the release, and the release comes
  after the server's goroutines have ended, so nothing is closed twice or sent to when closed.
\<close>

theorem rpc_never_panics:
  assumes "rtranclp (rpc_step ro) s0 s" and "rpc_start s0"
  shows "(\<forall>ch msg. rp_place s = RTaken ch msg \<longrightarrow> (\<exists>t. onMessage_send ch msg s = Value t)) \<and>
    (\<not> rp_down s \<longrightarrow> (\<exists>t. rpc_release s = Value t))"
proof -
  have inv: "rpc_inv (ro_sink ro) s" using assms by (rule rpc_run_inv)
  then show ?thesis
    using rpc_release_result [OF inv] onMessage_send_result [of s] by (simp add: rpc_inv_def taken_ok_def)
qed

text \<open>
  C30: A caller gets its own reply or none: whatever is delivered and in whatever order, the
  channel of a call never holds more than one message, and that message carries the
  identifier of the call.
\<close>

theorem reply_is_to_its_call:
  assumes "rtranclp (rpc_step ro) s0 s" and "rpc_start s0" and "(uuid, ch) \<in> set (rp_calls s)"
  shows "ch_buf (rp_chan s ch) = [] \<or> (\<exists>msg. ch_buf (rp_chan s ch) = [msg] \<and> d_CorrelationId msg = uuid)"
proof -
  have inv: "rpc_inv (ro_sink ro) s" using assms(1,2) by (rule rpc_run_inv)
  then have "call_ok s uuid ch" "taken_ok (ro_sink ro) s" using assms(3) by (simp_all add: rpc_inv_def)
  then show ?thesis by (auto simp: call_ok_def taken_ok_def split: if_splits)
qed

lemma Reply_Bytes_closed: "ch_closed c \<Longrightarrow> Reply_Bytes c \<noteq> Stuck"
  by (simp add: Reply_Bytes_def chan_recv_def split: list.split)

lemma closed_stays:
  assumes "rpc_step ro s t" "rpc_inv k s" "(u, ch) \<in> set (rp_calls s)" "ch_closed (rp_chan s ch)"
  shows "(u, ch) \<in> set (rp_calls t) \<and> ch_closed (rp_chan t ch)"
  using assms
proof (induction rule: rpc_step.induct)
  case (rpc_call uuid s)
  then show ?case using old_channel [of s u ch] by (simp add: rpc_inv_def)
next
  case (rpc_message s msg)
  then show ?case by (auto simp: onMessage_take_def split: option.split)
next
  case (rpc_deliver s ch' msg t)
  then have "rp_chan s ch' = chan_make 1" by (simp add: rpc_inv_def taken_ok_def)
  with rpc_deliver show ?case by (auto simp: onMessage_send_result)
next
  case (rpc_finish s t)
  then show ?case using rpc_release_result [OF rpc_finish(4,2)] by auto
qed (auto simp: chan_recv_def split: list.splits if_splits)

text \<open>
  A caller whose request is not published yet: its call is only registered, or the channel it
  waits on in \<open>Raw\<close> is open.
\<close>

definition raw_blocked :: "rpc_sys \<Rightarrow> nat \<Rightarrow> bool" where
  "raw_blocked s ch \<longleftrightarrow> (\<exists>uuid. rp_raw s ch = RawRegistered uuid) \<or>
     (\<exists>d. rp_raw s ch = RawSending d \<and> \<not> ch_closed (ww_done (ws_world (rp_writer s)) d))"

text \<open>Without its loop a publisher closes no channel.\<close>

lemma offline_keeps_open:
  "writer_step b wc u v \<Longrightarrow> ws_pc u = Offline \<Longrightarrow> ws_pc v = Offline \<Longrightarrow> d < ww_next (ws_world u) \<Longrightarrow>
   ch_closed (ww_done (ws_world v) d) = ch_closed (ww_done (ws_world u) d)"
  by (induction rule: writer_step.induct)
    (auto simp: writer_Publish_cases TrySend_cases bind_outcome_Value_iff make_done_def make_try_def stream_put_def
      split: if_splits)

definition blocked_inv :: "rpc_setup \<Rightarrow> nat \<Rightarrow> rpc_sys \<Rightarrow> bool" where
  "blocked_inv ro ch s \<longleftrightarrow> rpc_inv (ro_sink ro) s \<and> sending_inv (ro_publisher ro) s \<and> rp_down s \<and> ch < rp_next s \<and> raw_blocked s ch"

lemma blocked_stays:
  assumes step: "rpc_step ro s t" and inv: "blocked_inv ro ch s" and mw: "wc_middleware (ro_writer ro) = []"
  shows "blocked_inv ro ch t"
proof -
  have keep: "rpc_inv (ro_sink ro) t" "sending_inv (ro_publisher ro) t"
    using rpc_step_inv [OF step] sending_step [OF step] inv by (simp_all add: blocked_inv_def)
  have pc: "sv_pc (rp_server s) = SFinished" and si: "server_inv (rp_server s)"
    using inv by (simp_all add: blocked_inv_def rpc_inv_def)
  then have over: "sv_worker (rp_server s) i \<noteq> WServing" for i using finished_over by blast
  have off: "ws_pc (rp_writer s) = Offline" using inv over by (auto simp: blocked_inv_def sending_inv_def)
  have ok: "raw_ok (ws_world (rp_writer s)) (rp_raw s c)" for c using inv by (simp add: blocked_inv_def sending_inv_def)
  have down: "rp_down s" "ch < rp_next s" "raw_blocked s ch" using inv by (simp_all add: blocked_inv_def)
  from step have "rp_down t \<and> ch < rp_next t \<and> raw_blocked t ch"
  proof cases
    case (rpc_publisher u)
    with over have "ws_pc u = Offline" by blast
    then have "ch_closed (ww_done (ws_world u) d) = ch_closed (ww_done (ws_world (rp_writer s)) d)"
      if "rp_raw s ch = RawSending d" for d
      using offline_keeps_open [OF rpc_publisher(2) off] ok [of ch] that by (simp add: raw_ok_def)
    with down rpc_publisher(1) show ?thesis by (auto simp: raw_blocked_def)
  next
    case (rpc_call uuid)
    with down show ?thesis by (auto simp: raw_blocked_def)
  next
    case (rpc_send c uuid now msg d e w)
    have step': "writer_step (ro_broker ro) (ro_writer ro) (rp_writer s) ((rp_writer s)\<lparr>ws_world := w\<rparr>)"
      using rpc_send(3) by (rule writer_step.client_publish)
    have "ch_closed (ww_done w d') = ch_closed (ww_done (ws_world (rp_writer s)) d')"
      if "rp_raw s ch = RawSending d'" for d'
      using offline_keeps_open [OF step' off] off ok [of ch] that by (simp add: raw_ok_def)
    with down rpc_send(1) publish_gives_channel [OF rpc_send(3)] mw show ?thesis
      by (auto simp: raw_blocked_def)
  next
    case (rpc_sent c d x cc)
    have "c \<noteq> ch"
    proof
      assume "c = ch"
      with rpc_sent(2) down(3) ok [of ch] have "chan_recv (ww_done (ws_world (rp_writer s)) d) = None"
        by (simp add: raw_blocked_def raw_ok_def chan_recv_def)
      with rpc_sent(3) show False by simp
    qed
    with down rpc_sent(1) show ?thesis by (auto simp: raw_blocked_def)
  qed (use down over in \<open>auto simp: raw_blocked_def onMessage_send_def rpc_release_def bind_outcome_Value_iff\<close>)
  with keep show ?thesis by (simp add: blocked_inv_def)
qed

text \<open>
  C32: What the end of the server does to the callers. Once the release has run, the reply channel
  of every call made before it is closed, then and later: a caller that has its \<open>Reply\<close> does not
  wait, but finds the reply or the error of the closed channel. A caller that is still inside
  \<open>Raw\<close> because its request is not published is not released: \<open>Raw\<close> never returns, as no
  publisher runs any more.
\<close>

theorem shutdown_releases_callers:
  assumes "rtranclp (rpc_step ro) s0 s" and "rpc_start s0" and "ro_writer ro = rpc_writer target_exchange target_key"
    and "ch_closed (sv_done (rp_server s))" and "\<not> rp_down s" and "rpc_release s = Value t"
    and "rtranclp (rpc_step ro) t t'" and "(uuid, ch) \<in> set (rp_calls s)"
  shows "Reply_Bytes (rp_chan t' ch) \<noteq> Stuck \<and> (raw_blocked t ch \<longrightarrow> rp_raw t' ch \<noteq> RawReturned)"
proof -
  have inv: "rpc_inv (ro_sink ro) s" using assms(1,2) by (rule rpc_run_inv)
  have "sv_pc (rp_server s) = SFinished" using inv assms(4) by (simp add: rpc_inv_def server_inv_def)
  with inv have idle: "rp_place s = RIdle" by (rule finished_idle)
  have "call_ok s uuid ch" using inv assms(8) by (simp add: rpc_inv_def)
  with idle have "ch \<in> snd ` set (rp_corr s) \<or> ch_closed (rp_chan s ch)"
    by (force simp: call_ok_def split: if_splits)
  then have t: "(uuid, ch) \<in> set (rp_calls t) \<and> ch_closed (rp_chan t ch)"
    using rpc_release_result [OF inv assms(5)] assms(6,8) by auto
  have t_inv: "rpc_inv (ro_sink ro) t" using inv assms(4-6) by (rule finish_inv)
  with assms(7) t have "rpc_inv (ro_sink ro) t' \<and> (uuid, ch) \<in> set (rp_calls t') \<and> ch_closed (rp_chan t' ch)"
    by (induction rule: rtranclp_induct) (auto dest: rpc_step_inv closed_stays)
  then have "Reply_Bytes (rp_chan t' ch) \<noteq> Stuck" by (simp add: Reply_Bytes_closed)
  moreover have "rp_raw t' ch \<noteq> RawReturned" if "raw_blocked t ch"
  proof -
    have "rpc_step ro s t" using assms(4-6) by (rule rpc_step.rpc_finish)
    then have "sending_inv (ro_publisher ro) t"
      using sending_step rpc_senders.reachable_inv [OF assms(1,2)] by blast
    moreover have "rp_down t" using rpc_release_result [OF inv assms(5)] assms(6) by auto
    moreover have "ch < rp_next t" using t t_inv by (force simp: rpc_inv_def table_ok_def)
    ultimately have blocked: "blocked_inv ro ch t" using t_inv that by (simp add: blocked_inv_def)
    have mw: "wc_middleware (ro_writer ro) = []"
      by (simp add: assms(3) rpc_writer_def DefaultKey_def DefaultDirect_def withExchange_def newWriter_def)
    from assms(7) blocked have "blocked_inv ro ch t'"
      by (rule rtranclp_invariant) (rule blocked_stays [OF _ _ mw])
    then show ?thesis by (auto simp: blocked_inv_def raw_blocked_def)
  qed
  ultimately show ?thesis by blast
qed

text \<open>
  C33: A call made after the release waits for ever: its channel stays open and empty whatever
  happens, as no handler runs any more and the table is not released a second time.
\<close>

theorem late_call_waits_forever:
  assumes "rtranclp (rpc_step ro) s0 s" and "rpc_start s0" and "rp_down s"
    and "uuid \<notin> fst ` set (rp_calls s)"
    and "rtranclp (rpc_step ro) (rpc_register uuid s) t"
  shows "Reply_Bytes (rp_chan t (rp_next s)) = Stuck"
proof -
  let ?late = "\<lambda>t. rpc_inv (ro_sink ro) t \<and> rp_down t \<and> rp_next s < rp_next t \<and> rp_chan t (rp_next s) = chan_make 1"
  have "?late (rpc_register uuid s)"
    using assms(3,4) register_inv [OF rpc_run_inv [OF assms(1,2)]] by simp
  with assms(5) have "?late t"
  proof (rule rtranclp_invariant)
    fix u v assume step: "rpc_step ro u v" and u: "?late u"
    have pc: "sv_pc (rp_server u) = SFinished" using u by (simp add: rpc_inv_def)
    then have idle: "sv_worker (rp_server u) (ro_sink ro) \<noteq> WServing" "rp_place u = RIdle"
      using u finished_idle finished_over unfolding rpc_inv_def by blast+
    from step have "rp_down v \<and> rp_next s < rp_next v \<and> rp_chan v (rp_next s) = chan_make 1"
      by cases (use u idle in \<open>auto simp: chan_recv_def\<close>)
    then show "?late v" using rpc_step_inv [OF step] u by simp
  qed
  then show ?thesis by (simp add: Reply_Bytes_def chan_recv_def)
qed

section \<open>A call and its reply\<close>

text \<open>
  C31: A remote call round trip: the request of a call names its identifier and the RPC's queue;
  the reply a service builds for it with \<open>Writer.Reply\<close> goes to that queue through the default
  exchange, and when it comes in, the handler hands its body to the caller of that call.
\<close>

theorem rpc_round_trip:
  assumes "rtranclp (rpc_step ro) s0 s" and "rpc_start s0"
    and "(uuid, ch) \<in> set (rp_corr s)" and "\<not> rp_down s"
    and "request = rpc_Bytes wc queue uuid now question"
    and "d_CorrelationId d = p_CorrelationId (msg_msg request)" and "d_ReplyTo d = p_ReplyTo (msg_msg request)"
    and "reply = Message_Bytes answer (writer_Reply wc' now' d)"
    and "d_CorrelationId d' = p_CorrelationId (msg_msg reply)" and "d_Body d' = p_Body (msg_msg reply)"
  shows "msg_exchange reply = '''' \<and> msg_key reply = queue \<and>
    (\<exists>t. onMessage_send ch d' (onMessage_take d' s) = Value t \<and> Reply_Bytes (rp_chan t ch) = Value (Inr answer))"
proof -
  have inv: "rpc_inv (ro_sink ro) s" using assms(1,2) by (rule rpc_run_inv)
  have id: "d_CorrelationId d' = uuid" and body: "d_Body d' = answer"
    using assms(5-10) by (simp_all add: rpc_Bytes_def rpc_Raw_def Message_Bytes_def writer_Reply_def Let_def)
  have tab: "table_ok s" using inv by (simp add: rpc_inv_def)
  then have get: "map_get (Some (rp_corr s)) uuid = Some ch"
    using assms(3) by (simp add: map_get_def table_ok_def)
  have "(uuid, ch) \<in> set (rp_calls s)" using tab assms(3) by (auto simp: table_ok_def)
  with inv assms(3,4) have "rp_chan s ch = chan_make 1" by (auto simp: rpc_inv_def call_ok_def chan_make_def)
  with get id body have "\<exists>t. onMessage_send ch d' (onMessage_take d' s) = Value t \<and> Reply_Bytes (rp_chan t ch) = Value (Inr answer)"
    by (simp add: onMessage_take_def onMessage_send_result Reply_Bytes_def chan_recv_def)
  moreover have "msg_exchange reply = ''''" "msg_key reply = queue"
    using assms(5-8) by (simp_all add: rpc_Bytes_def rpc_Raw_def Message_Bytes_def writer_Reply_def Let_def)
  ultimately show ?thesis by blast
qed

text \<open>
  The message of \<open>Raw\<close> has the delivery mode of the caller's publishing, not the persistent mode
  of \<open>Prepare\<close>: with \<open>Bytes\<close>, \<open>Content\<close> and \<open>JSON\<close> a request is transient.
\<close>

lemma rpc_request_transient: "p_DeliveryMode (msg_msg (rpc_Bytes wc queue uuid now contents)) = 0"
  by (simp add: rpc_Bytes_def rpc_Raw_def zero_publishing_def)

section \<open>A run used as example\<close>

lemma lift_server_run:
  "rtranclp (server_step (ro_server ro)) t u \<Longrightarrow> rp_server s = t \<Longrightarrow> rp_place s = RIdle \<Longrightarrow>
   ws_pc (rp_writer s) = Offline \<Longrightarrow> rtranclp (rpc_step ro) s (s\<lparr>rp_server := u\<rparr>)"
proof (induction rule: rtranclp_induct)
  case (step u v)
  then have "rpc_step ro (s\<lparr>rp_server := u\<rparr>) ((s\<lparr>rp_server := u\<rparr>)\<lparr>rp_server := v\<rparr>)"
    by (intro rpc_step.rpc_server) simp_all
  with step show ?case by simp
next
  case base
  then show ?case by (cases s) simp
qed

definition demo_setup :: rpc_setup where
  "demo_setup = \<lparr>ro_broker = ok_broker, ro_server = demo_cfg, ro_sink = 0, ro_publisher = 1,
     ro_writer = rpc_writer '''' ''service'', ro_queue = ''answers''\<rparr>"

lemma demo_setup_simps [simp]: "ro_server demo_setup = demo_cfg" "ro_sink demo_setup = 0"
  "ro_writer demo_setup = rpc_writer [] ''service''"
  by (simp_all add: demo_setup_def)

definition demo_rpc :: rpc_sys where
  "demo_rpc = \<lparr>rp_server = demo_server, rp_writer = demo_start, rp_corr = [], rp_chan = (\<lambda>_. chan_make 0), rp_next = 0,
     rp_place = RIdle, rp_raw = (\<lambda>_. RawNone), rp_down = False, rp_calls = []\<rparr>"

definition demo_serving :: server_sys where
  "demo_serving = (demo_given (StSelect 1) (chan_make 1))\<lparr>sv_worker := (\<lambda>_. WAbsent)(0 := WServing), sv_made := True\<rparr>"

definition demo_called :: rpc_sys where
  "demo_called = rpc_register ''u1'' (demo_rpc\<lparr>rp_server := demo_serving\<rparr>)"

definition demo_reply :: msg_in where
  "demo_reply = demo_delivery\<lparr>d_CorrelationId := ''u1''\<rparr>"

definition demo_taken :: rpc_sys where
  "demo_taken = demo_called\<lparr>rp_corr := [], rp_place := RTaken 0 demo_reply\<rparr>"

lemma demo_rpc_start [simp]: "rpc_start demo_rpc"
  by (simp add: rpc_start_def demo_rpc_def)

lemma demo_called_run: "rtranclp (rpc_step demo_setup) demo_rpc demo_called"
proof -
  let ?s = "demo_given (StSelect 1) (chan_make 1)"
  have "server_step demo_cfg ?s demo_serving"
    using server_step.channel_created [of ?s 0 None named_broker "[Did (Qos 1 0 True) (Inr ''q/requeue'')]" demo_cfg]
    by (simp add: demo_serving_def demo_given_def createChannel_def named_broker_def amqp_defs Let_def demo_registered_def demo_server_def)
  with demo_served_run have "rtranclp (server_step demo_cfg) demo_server demo_serving"
    by (rule rtranclp.rtrancl_into_rtrancl)
  then have "rtranclp (rpc_step demo_setup) demo_rpc (demo_rpc\<lparr>rp_server := demo_serving\<rparr>)"
    by (intro lift_server_run) (simp_all add: demo_rpc_def demo_start_def)
  moreover have "rpc_step demo_setup (demo_rpc\<lparr>rp_server := demo_serving\<rparr>) demo_called"
    unfolding demo_called_def by (rule rpc_step.rpc_call) (simp add: demo_rpc_def)
  ultimately show ?thesis by (rule rtranclp.rtrancl_into_rtrancl)
qed

lemma demo_taken_run: "rtranclp (rpc_step demo_setup) demo_rpc demo_taken"
proof -
  have "rpc_step demo_setup demo_called (onMessage_take demo_reply demo_called)"
    by (rule rpc_step.rpc_message) (simp_all add: demo_called_def demo_rpc_def demo_serving_def)
  then have "rpc_step demo_setup demo_called demo_taken"
    by (simp add: onMessage_take_def demo_called_def demo_rpc_def rpc_register_def map_put_def map_get_def
        demo_taken_def demo_reply_def demo_delivery_def)
  with demo_called_run show ?thesis by (rule rtranclp.rtrancl_into_rtrancl)
qed

theorem rpc_never_panics_witness:
  "\<exists>t. onMessage_send 0 demo_reply demo_taken = Value t"
  using rpc_never_panics [OF demo_taken_run demo_rpc_start] by (simp add: demo_taken_def)

theorem reply_is_to_its_call_witness:
  "\<exists>t. onMessage_send 0 demo_reply demo_taken = Value t \<and>
     ch_buf (rp_chan t 0) = [demo_reply] \<and> d_CorrelationId demo_reply = ''u1''"
proof -
  obtain t where t: "onMessage_send 0 demo_reply demo_taken = Value t" "ch_buf (rp_chan t 0) = [demo_reply]"
    "rp_calls t = rp_calls demo_taken"
    by (simp add: onMessage_send_result demo_taken_def demo_called_def demo_rpc_def)
  have "rpc_step demo_setup demo_taken t"
    using t(1) by (intro rpc_step.rpc_deliver [where ch = 0 and msg = demo_reply]) (simp_all add: demo_taken_def)
  with demo_taken_run have "rtranclp (rpc_step demo_setup) demo_rpc t" by (rule rtranclp.rtrancl_into_rtrancl)
  from reply_is_to_its_call [OF this demo_rpc_start, of "''u1''" 0] t show ?thesis
    by (simp add: demo_taken_def demo_called_def demo_rpc_def)
qed

text \<open>The server of the call is shut down before there is a reply.\<close>

lemma demo_finished_run:
  "\<exists>t. rtranclp (rpc_step demo_setup) demo_rpc (demo_called\<lparr>rp_server := t\<rparr>) \<and> ch_closed (sv_done t)"
proof -
  have inv: "rpc_inv 0 demo_called" using rpc_run_inv [OF demo_called_run demo_rpc_start] by simp
  have "server_step demo_cfg demo_serving (demo_serving\<lparr>sv_ctx := Some Canceled\<rparr>)"
    by (rule server_step.shutdown) (simp add: demo_serving_def demo_given_def demo_registered_def demo_server_def)
  moreover have "server_inv (demo_serving\<lparr>sv_ctx := Some Canceled\<rparr>)"
    using server_step_inv [OF calculation] inv by (simp add: rpc_inv_def demo_called_def)
  then obtain t where "rtranclp (server_step demo_cfg) (demo_serving\<lparr>sv_ctx := Some Canceled\<rparr>) t" "sv_pc t = SFinished"
    using finishes_established [of "demo_serving\<lparr>sv_ctx := Some Canceled\<rparr>" Canceled demo_cfg]
    unfolding finishes_def by (auto simp: demo_serving_def demo_given_def)
  ultimately have run: "rtranclp (server_step demo_cfg) demo_serving t" by (metis run_step)
  then have "server_inv t" using inv
    by (intro rtranclp_invariant [OF run, where I = server_inv])
      (simp_all add: rpc_inv_def demo_called_def server_step_inv)
  then have "ch_closed (sv_done t)" using \<open>sv_pc t = SFinished\<close> by (simp add: server_inv_def)
  moreover have "rtranclp (rpc_step demo_setup) demo_called (demo_called\<lparr>rp_server := t\<rparr>)"
    using run by (intro lift_server_run) (simp_all add: demo_called_def demo_rpc_def demo_start_def)
  ultimately show ?thesis using demo_called_run by (meson rtranclp_trans)
qed

theorem shutdown_releases_callers_witness:
  "\<exists>s t. rpc_release s = Value t \<and> rp_chan s 0 = chan_make 1 \<and> Reply_Bytes (rp_chan t 0) \<noteq> Stuck \<and>
     (\<forall>t'. rtranclp (rpc_step demo_setup) t t' \<longrightarrow> rp_raw t' 0 \<noteq> RawReturned)"
proof -
  obtain u where u: "rtranclp (rpc_step demo_setup) demo_rpc (demo_called\<lparr>rp_server := u\<rparr>)" "ch_closed (sv_done u)"
    using demo_finished_run by blast
  let ?s = "demo_called\<lparr>rp_server := u\<rparr>"
  have up: "\<not> rp_down ?s" and call: "(''u1'', 0) \<in> set (rp_calls ?s)" and chan: "rp_chan ?s 0 = chan_make 1"
    by (simp_all add: demo_called_def demo_rpc_def)
  obtain t where t: "rpc_release ?s = Value t"
    using rpc_release_result [OF rpc_run_inv [OF u(1) demo_rpc_start] up] by blast
  have fin: "ch_closed (sv_done (rp_server ?s))" and wr: "ro_writer demo_setup = rpc_writer [] ''service''"
    using u(2) by simp_all
  have "raw_blocked t 0"
    using rpc_release_result [OF rpc_run_inv [OF u(1) demo_rpc_start] up] t
    by (auto simp: raw_blocked_def demo_called_def demo_rpc_def)
  then have "Reply_Bytes (rp_chan t' 0) \<noteq> Stuck \<and> rp_raw t' 0 \<noteq> RawReturned" if "rtranclp (rpc_step demo_setup) t t'" for t'
    using shutdown_releases_callers [OF u(1) demo_rpc_start wr fin up t that call] by blast
  with t chan show ?thesis by blast
qed

theorem late_call_waits_forever_witness:
  "\<exists>s. rp_down s \<and> Reply_Bytes (rp_chan (rpc_register ''u2'' s) (rp_next s)) = Stuck"
proof -
  obtain u where u: "rtranclp (rpc_step demo_setup) demo_rpc (demo_called\<lparr>rp_server := u\<rparr>)" "ch_closed (sv_done u)"
    using demo_finished_run by blast
  let ?s = "demo_called\<lparr>rp_server := u\<rparr>"
  have up: "\<not> rp_down ?s" by (simp add: demo_called_def demo_rpc_def)
  obtain t where t: "rpc_release ?s = Value t" "rp_down t" "rp_calls t = rp_calls ?s"
    using rpc_release_result [OF rpc_run_inv [OF u(1) demo_rpc_start] up] by auto
  have "rpc_step demo_setup ?s t" using t(1) up u(2) by (intro rpc_step.rpc_finish) simp_all
  with u(1) have run: "rtranclp (rpc_step demo_setup) demo_rpc t" by (rule rtranclp.rtrancl_into_rtrancl)
  have "''u2'' \<notin> fst ` set (rp_calls t)" using t(3) by (simp add: demo_called_def demo_rpc_def)
  from late_call_waits_forever [OF run demo_rpc_start t(2) this rtranclp.rtrancl_refl] t(2) show ?thesis by blast
qed

theorem rpc_round_trip_witness:
  "\<exists>t. onMessage_send 0 (demo_reply\<lparr>d_Body := ''pong''\<rparr>) (onMessage_take (demo_reply\<lparr>d_Body := ''pong''\<rparr>) demo_called) = Value t \<and>
     Reply_Bytes (rp_chan t 0) = Value (Inr ''pong'')"
proof -
  let ?req = "rpc_Bytes newWriter ''answers'' ''u1'' ZeroTime ''ping''"
  let ?d = "demo_delivery\<lparr>d_CorrelationId := ''u1'', d_ReplyTo := ''answers''\<rparr>"
  let ?reply = "Message_Bytes ''pong'' (writer_Reply newWriter ZeroTime ?d)"
  have corr: "(''u1'', 0) \<in> set (rp_corr demo_called)" and up: "\<not> rp_down demo_called"
    by (simp_all add: demo_called_def rpc_register_def map_put_def demo_rpc_def)
  have "d_CorrelationId ?d = p_CorrelationId (msg_msg ?req)" "d_ReplyTo ?d = p_ReplyTo (msg_msg ?req)"
    by (simp_all add: rpc_Bytes_def rpc_Raw_def)
  moreover have "d_CorrelationId (demo_reply\<lparr>d_Body := ''pong''\<rparr>) = p_CorrelationId (msg_msg ?reply)"
    "d_Body (demo_reply\<lparr>d_Body := ''pong''\<rparr>) = p_Body (msg_msg ?reply)"
    by (simp_all add: Message_Bytes_def writer_Reply_def Let_def demo_reply_def)
  ultimately show ?thesis
    using rpc_round_trip [OF demo_called_run demo_rpc_start corr up refl] by blast
qed

end
