(* ===== verification/Retry_Cycle.thy ===== *)
theory Retry_Cycle
  imports Broker_Config
begin

text \<open>
  The life of a message whose transaction keeps failing, across \<open>sink.go\<close> and \<open>requeuer.go\<close>:
  the sink hands the delivery to the transaction, the failed delivery is published to the
  requeue queue, the broker dead-letters the copy back to the sink's queue when its time is up,
  and so on until the retry limit. What the broker does with the copy is an argument.
\<close>

section \<open>The cycle\<close>

type_synonym dead_lettering = "msg_out \<Rightarrow> msg_in"

text \<open>The copies a part of the history stored in the requeue queue.\<close>

fun stored_copies :: "string \<Rightarrow> history \<Rightarrow> msg_out list" where
  "stored_copies queue [] = []"
| "stored_copies queue (e # h) =
     (case e of
        Did (Publish ex key _ _ p) (Inr _) \<Rightarrow> if ex = '''' \<and> key = queue then [p] else []
      | _ \<Rightarrow> []) @ stored_copies queue h"

text \<open>
  One delivery after the other, at most \<open>fuel\<close> of them: the loop body of the sink, then the copy
  it stored, if it did, comes back.
\<close>

fun retry_cycle ::
    "broker \<Rightarrow> sink_config \<Rightarrow> string \<Rightarrow> requeue_config \<Rightarrow> transaction \<Rightarrow> dead_lettering \<Rightarrow> nat \<Rightarrow> msg_in \<Rightarrow> history \<Rightarrow> history" where
  "retry_cycle b s queue rc fn back 0 d h = h"
| "retry_cycle b s queue rc fn back (Suc fuel) d h =
     (let h' = snd (sink_message b s (transact_handler b (sink_requeue b (Some (queue, rc, Served))) fn) d h) in
      case stored_copies queue (drop (length h) h') of
        [] \<Rightarrow> h'
      | p # _ \<Rightarrow> retry_cycle b s queue rc fn back fuel (back p) h')"

text \<open>How often the transaction ran.\<close>

definition handled :: "history \<Rightarrow> nat" where
  "handled h = length (filter (\<lambda>e. case e of RanHandler _ _ \<Rightarrow> True | _ \<Rightarrow> False) h)"

section \<open>What is known of the broker\<close>

text \<open>
  Dead-lettering counts: the delivery that comes back has a count one higher than the headers
  of the copy say, which is how RabbitMQ keeps the first entry of \<open>x-death\<close>.
\<close>

definition counts_deaths :: "dead_lettering \<Rightarrow> bool" where
  "counts_deaths back \<longleftrightarrow> (\<forall>p d. d_Headers d = p_Headers p \<longrightarrow> getRedelivery (back p) = getRedelivery d + 1)"

definition accepting :: "broker \<Rightarrow> bool" where
  "accepting b \<longleftrightarrow> (\<forall>h c. \<exists>n. b h c = Inr n)"

section \<open>Lemmas\<close>

lemma sint_plus_one: "sint (w :: 64 word) < 2 ^ 63 - 1 \<Longrightarrow> sint (w + 1) = sint w + 1"
proof -
  assume w: "sint w < 2 ^ 63 - 1"
  have "- (2 ^ 63) \<le> sint w" using sint_ge [of w] by simp
  with w have "signed_take_bit 63 (sint w + 1) = sint w + 1"
    by (intro signed_take_bit_int_eq_self) simp_all
  moreover have "sint (w + 1) = signed_take_bit 63 (sint w + 1)"
    by (simp add: sint_word_ariths(1))
  ultimately show ?thesis by simp
qed

lemma getRedelivery_headers: "d_Headers d = d_Headers d' \<Longrightarrow> getRedelivery d = getRedelivery d'"
  by (simp add: getRedelivery_def)

lemma getRedelivery_last_error [simp]: "getRedelivery (with_last_error e d) = getRedelivery d"
  by (cases e) (simp_all add: getRedelivery_def with_last_error_def LastErrorHeader_def)

lemma failing_round:
  assumes "accepting b" and "sk_middleware s = []" and "sink_verdict s d h" and "verdict_events s d h = h"
    and "fn h (d\<lparr>d_RoutingKey := restoreRoutingKey d\<rparr>) = Some e"
  shows "\<exists>p n m. snd (sink_message b s (transact_handler b (sink_requeue b (Some (queue, rc, Served))) fn) d h) =
      h @ [RanHandler (d\<lparr>d_RoutingKey := restoreRoutingKey d\<rparr>) (Some e),
           Did (Publish '''' queue False False p) (Inr n), Did (Ack (d_DeliveryTag d) False) (Inr m)] \<and>
    p_Headers p = d_Headers (with_last_error (Some e) d) \<and> p_Body p = d_Body d \<and> p_MessageId p = d_MessageId d"
proof -
  let ?d = "d\<lparr>d_RoutingKey := restoreRoutingKey d\<rparr>"
  let ?p = "requeue_publishing rc (with_last_error (Some e) ?d)"
  let ?h1 = "h @ [RanHandler ?d (Some e)]"
  obtain n where n: "b ?h1 (Publish '''' queue False False ?p) = Inr n" using assms(1) unfolding accepting_def by blast
  obtain m where m: "b (?h1 @ [Did (Publish '''' queue False False ?p) (Inr n)]) (Ack (d_DeliveryTag d) False) = Inr m"
    using assms(1) unfolding accepting_def by blast
  have "RequeueWithError_run b queue rc Served ?d e ?h1 = (Inr (), ?h1 @ [Did (Publish '''' queue False False ?p) (Inr n)])"
    using n by (simp add: RequeueWithError_run_def Requeue_run_def amqp_defs Let_def)
  with assms(2-5) m show ?thesis
    by (simp add: sink_message_verdict and_then_def pure_amqp_def transact_handler_def sink_requeue_def
        ignore_error_call Let_def) (simp add: with_last_error_def)
qed

text \<open>Without handlers for the limits nobody is asked.\<close>

lemma plain_verdict:
  assumes "sk_tooMuch s = None" and "sk_expired s = None" and "0 \<le> sint (sk_retries s)"
  shows "sink_verdict s d h \<longleftrightarrow> sint (getRedelivery d) \<le> sint (sk_retries s)" "verdict_events s d h = h"
  using assms
  by (auto simp: sink_verdict_def retry_warned_def retry_expired_def expired_answer_def verdict_events_def
      warning_asked_def Let_def)

lemma handled_append [simp]: "handled (h @ h') = handled h + handled h'"
  by (simp add: handled_def)

lemma handled_Cons [simp]: "handled (e # h) = (case e of RanHandler _ _ \<Rightarrow> 1 | _ \<Rightarrow> 0) + handled h"
  by (simp add: handled_def split: event.split)

lemma handled_Nil [simp]: "handled [] = 0"
  by (simp add: handled_def)

definition ends_rejected :: "history \<Rightarrow> bool" where
  "ends_rejected h \<longleftrightarrow> (\<exists>tag r. last h = Did (Nack tag False False) r)"

lemma retry_cycle_counts:
  assumes ok: "accepting b" "counts_deaths back" "sk_middleware s = []"
    and plain: "sk_tooMuch s = None" "sk_expired s = None" "0 \<le> sint (sk_retries s)" "sint (sk_retries s) < 2 ^ 63 - 1"
    and fails: "\<forall>h d. fn h d \<noteq> None"
  shows "int k = sint (sk_retries s) + 1 - sint (getRedelivery d) \<Longrightarrow> k < fuel \<Longrightarrow>
    handled (retry_cycle b s queue rc fn back fuel d h) = handled h + k \<and>
    ends_rejected (retry_cycle b s queue rc fn back fuel d h)"
proof (induction k arbitrary: fuel d h)
  case 0
  then obtain fuel' where fuel: "fuel = Suc fuel'" by (cases fuel) auto
  have "\<not> sink_verdict s d h" using 0(1) by (simp add: plain_verdict [OF plain(1-3)])
  then show ?case
    by (simp add: fuel sink_message_verdict plain_verdict(2) [OF plain(1-3)] call_unit_snd Let_def ends_rejected_def)
next
  case (Suc k)
  then obtain fuel' where fuel: "fuel = Suc fuel'" by (cases fuel) auto
  let ?d = "d\<lparr>d_RoutingKey := restoreRoutingKey d\<rparr>"
  obtain e where e: "fn h ?d = Some e" using fails by fastforce
  have "sink_verdict s d h" using Suc.prems(1) by (simp add: plain_verdict [OF plain(1-3)])
  then obtain p n m where round: "snd (sink_message b s (transact_handler b (sink_requeue b (Some (queue, rc, Served))) fn) d h) =
      h @ [RanHandler ?d (Some e), Did (Publish '''' queue False False p) (Inr n), Did (Ack (d_DeliveryTag d) False) (Inr m)]"
    and p: "p_Headers p = d_Headers (with_last_error (Some e) d)"
    using failing_round [where b = b and s = s and d = d and h = h and fn = fn and e = e and queue = queue and rc = rc]
      ok(1,3) e plain_verdict(2) [OF plain(1-3)] by blast
  have "getRedelivery (back p) = getRedelivery d + 1"
    using ok(2) p unfolding counts_deaths_def by (metis getRedelivery_last_error)
  moreover have "sint (getRedelivery d) < 2 ^ 63 - 1" using Suc.prems(1) plain(4) by simp
  ultimately have "int k = sint (sk_retries s) + 1 - sint (getRedelivery (back p))"
    using Suc.prems(1) by (simp add: sint_plus_one)
  from Suc.IH [OF this, of fuel'] Suc.prems(2) round show ?case by (simp add: fuel Let_def)
qed

section \<open>The property\<close>

text \<open>
  C34: A message whose transaction always fails is handled exactly once more than the retry
  limit says and then rejected for good, so that a dead-letter exchange of the sink gets it:
  with a broker that accepts every call and counts dead-letterings, for every limit that is not
  negative (and is below the largest \<open>int64\<close>, where the count would wrap around).
\<close>

theorem retries_then_rejected:
  assumes "accepting b" and "counts_deaths back" and "sk_middleware s = []"
    and "sk_tooMuch s = None" and "sk_expired s = None"
    and "0 \<le> sint (sk_retries s)" and "sint (sk_retries s) < 2 ^ 63 - 1"
    and "\<forall>h d. fn h d \<noteq> None" and "getRedelivery d = 0" and "nat (sint (sk_retries s)) + 2 \<le> fuel"
  shows "handled (retry_cycle b s queue rc fn back fuel d []) = nat (sint (sk_retries s)) + 1 \<and>
    ends_rejected (retry_cycle b s queue rc fn back fuel d [])"
proof -
  have "int (nat (sint (sk_retries s)) + 1) = sint (sk_retries s) + 1 - sint (getRedelivery d)"
    using assms(6,9) by simp
  from retry_cycle_counts [OF assms(1-8) this, of fuel queue rc "[]"] assms(10) show ?thesis by simp
qed

text \<open>A broker that keeps nothing of a message but its headers, with the count one higher.\<close>

definition counting_back :: dead_lettering where
  "counting_back p = demo_delivery\<lparr>d_Headers := Some [(''x-death'',
     VArray [VTable [(''count'', VInt64 (getRedelivery (demo_delivery\<lparr>d_Headers := p_Headers p\<rparr>) + 1))]])]\<rparr>"

theorem retries_then_rejected_witness:
  "handled (retry_cycle named_broker (server_Sink (Broker []) ''q'') ''q/requeue'' (newRequeue ''q'') failing
     counting_back 12 demo_delivery []) = 11"
proof -
  have "accepting named_broker" by (simp add: accepting_def named_broker_def)
  moreover have "counts_deaths counting_back"
    using getRedelivery_headers
    by (auto simp: counts_deaths_def counting_back_def getRedelivery_def map_get_def)
  moreover have "\<forall>h d. failing h d \<noteq> None" by (simp add: failing_def)
  moreover have "getRedelivery demo_delivery = 0" by (simp add: getRedelivery_def demo_delivery_def)
  ultimately show ?thesis
    using retries_then_rejected [of named_broker counting_back "server_Sink (Broker []) ''q''" failing demo_delivery 12
        "''q/requeue''" "newRequeue ''q''"]
    by (simp add: server_Sink_def Broker_def builder_simps)
qed

end
