(* ===== verification/Header_Utils.thy ===== *)
theory Header_Utils
  imports Complex_Main Amqp_Model
begin

text \<open>
  \<open>utils.go\<close>: the readers of typed header values and the context that ends on a signal. Go's
  conversions between numeric types are modelled bit by bit: between integers they keep the
  low bits (extending by sign or by zero), to \<open>float64\<close> they round to the nearest
  representable number, ties to even.
\<close>

section \<open>SignalContext\<close>

text \<open>
  What happens to the process, in order: the parent context ends, or a signal comes in. The
  result is the error of the new context. \<open>Kill\<close> cannot be caught by a process, so only
  \<open>Interrupt\<close> reaches the goroutine.
\<close>

datatype os_signal = Interrupt | OtherSignal nat
datatype context_event = ParentDone go_error | Signalled os_signal

fun SignalContext :: "context_event list \<Rightarrow> go_error option" where
  "SignalContext [] = None"
| "SignalContext (ParentDone e # evs) = Some e"
| "SignalContext (Signalled Interrupt # evs) = Some Canceled"
| "SignalContext (Signalled (OtherSignal n) # evs) = SignalContext evs"

section \<open>Headers of one type\<close>

definition BoolHeader :: "msg_in \<Rightarrow> string \<Rightarrow> bool \<Rightarrow> bool" where
  "BoolHeader msg param def =
     (case d_Headers msg of
        None \<Rightarrow> def
      | Some headers \<Rightarrow> (case map_of headers param of Some (VBool b) \<Rightarrow> b | _ \<Rightarrow> def))"

definition StringHeader :: "msg_in \<Rightarrow> string \<Rightarrow> string \<Rightarrow> string" where
  "StringHeader msg param def =
     (case d_Headers msg of
        None \<Rightarrow> def
      | Some headers \<Rightarrow> (case map_of headers param of Some (VString s) \<Rightarrow> s | _ \<Rightarrow> def))"

section \<open>Integers\<close>

fun to_int64 :: "amqp_value \<Rightarrow> 64 word option" where
  "to_int64 (VInt w) = Some w"
| "to_int64 (VInt8 w) = Some (word_of_int (sint w))"
| "to_int64 (VInt16 w) = Some (word_of_int (sint w))"
| "to_int64 (VInt32 w) = Some (word_of_int (sint w))"
| "to_int64 (VInt64 w) = Some w"
| "to_int64 (VUint w) = Some w"
| "to_int64 (VUint8 w) = Some (word_of_int (uint w))"
| "to_int64 (VUint16 w) = Some (word_of_int (uint w))"
| "to_int64 (VUint32 w) = Some (word_of_int (uint w))"
| "to_int64 (VUint64 w) = Some w"
| "to_int64 _ = None"

definition IntHeader :: "msg_in \<Rightarrow> string \<Rightarrow> 64 word \<Rightarrow> 64 word" where
  "IntHeader msg param def =
     (case d_Headers msg of
        None \<Rightarrow> def
      | Some headers \<Rightarrow>
          (case map_of headers param of
             None \<Rightarrow> def
           | Some v \<Rightarrow> (case to_int64 v of Some t \<Rightarrow> t | None \<Rightarrow> def)))"

section \<open>Floats\<close>

fun bit_length :: "nat \<Rightarrow> nat" where
  "bit_length n = (if n = 0 then 0 else Suc (bit_length (n div 2)))"

declare bit_length.simps [simp del]

text \<open>The quotient by a power of two, rounded to the nearest number, ties to even.\<close>

definition round_shift :: "nat \<Rightarrow> nat \<Rightarrow> nat" where
  "round_shift s m = (let q = m div 2 ^ s; r = 2 * (m mod 2 ^ s) in
     if r > 2 ^ s \<or> r = 2 ^ s \<and> odd q then q + 1 else q)"

text \<open>
  The bits of a positive number \<open>m * 2 ^ k\<close> with at least the leading bit in front of the point:
  a mantissa of 53 bits, whose leading bit is not stored, and an exponent with bias 1023. A
  mantissa that rounds up to 54 bits carries into the exponent.
\<close>

definition float64_bits :: "nat \<Rightarrow> nat" where
  "float64_bits m = (if m = 0 then 0 else
     let l = bit_length m;
         mantissa = (if l \<le> 53 then m * 2 ^ (53 - l) else round_shift (l - 53) m)
     in (l + 1022) * 2 ^ 52 + (mantissa - 2 ^ 52))"

definition float64_of_int :: "int \<Rightarrow> 64 word" where
  "float64_of_int i = (if i < 0 then of_nat (2 ^ 63 + float64_bits (nat (- i))) else of_nat (float64_bits (nat i)))"

text \<open>
  From \<open>float32\<close>: sign, exponent with bias 127 and a fraction of 23 bits. Numbers without
  leading bit are normalised, a NaN is made quiet.
\<close>

definition widen_float :: "32 word \<Rightarrow> 64 word" where
  "widen_float w = (let n = unat w; sign = n div 2 ^ 31; e = n div 2 ^ 23 mod 2 ^ 8; f = n mod 2 ^ 23;
       bits = (if e = 255 then 2047 * 2 ^ 52 + (if f = 0 then 0 else if f < 2 ^ 22 then (f + 2 ^ 22) * 2 ^ 29 else f * 2 ^ 29)
               else if e \<noteq> 0 then (e + 896) * 2 ^ 52 + f * 2 ^ 29
               else if f = 0 then 0
               else (let l = bit_length f in (l + 873) * 2 ^ 52 + (f * 2 ^ (53 - l) - 2 ^ 52)))
     in of_nat (sign * 2 ^ 63 + bits))"

fun to_float64 :: "amqp_value \<Rightarrow> 64 word option" where
  "to_float64 (VInt w) = Some (float64_of_int (sint w))"
| "to_float64 (VInt8 w) = Some (float64_of_int (sint w))"
| "to_float64 (VInt16 w) = Some (float64_of_int (sint w))"
| "to_float64 (VInt32 w) = Some (float64_of_int (sint w))"
| "to_float64 (VInt64 w) = Some (float64_of_int (sint w))"
| "to_float64 (VUint w) = Some (float64_of_int (uint w))"
| "to_float64 (VUint8 w) = Some (float64_of_int (uint w))"
| "to_float64 (VUint16 w) = Some (float64_of_int (uint w))"
| "to_float64 (VUint32 w) = Some (float64_of_int (uint w))"
| "to_float64 (VUint64 w) = Some (float64_of_int (uint w))"
| "to_float64 (VFloat32 w) = Some (widen_float w)"
| "to_float64 (VFloat64 w) = Some w"
| "to_float64 _ = None"

definition FloatHeader :: "msg_in \<Rightarrow> string \<Rightarrow> 64 word \<Rightarrow> 64 word" where
  "FloatHeader msg param def =
     (case d_Headers msg of
        None \<Rightarrow> def
      | Some headers \<Rightarrow>
          (case map_of headers param of
             None \<Rightarrow> def
           | Some v \<Rightarrow> (case to_float64 v of Some t \<Rightarrow> t | None \<Rightarrow> def)))"

section \<open>Properties\<close>

text \<open>The number an integer header stands for.\<close>

fun header_number :: "amqp_value \<Rightarrow> int option" where
  "header_number (VInt w) = Some (sint w)"
| "header_number (VInt8 w) = Some (sint w)"
| "header_number (VInt16 w) = Some (sint w)"
| "header_number (VInt32 w) = Some (sint w)"
| "header_number (VInt64 w) = Some (sint w)"
| "header_number (VUint w) = Some (uint w)"
| "header_number (VUint8 w) = Some (uint w)"
| "header_number (VUint16 w) = Some (uint w)"
| "header_number (VUint32 w) = Some (uint w)"
| "header_number (VUint64 w) = Some (uint w)"
| "header_number _ = None"

lemma sint_of_int64: "sint (word_of_int n :: 64 word) = signed_take_bit 63 n"
  by (simp add: sint_sbintrunc')

lemma wrap_int64:
  fixes n :: int
  assumes "- (2 ^ 63) \<le> n" and "n < 2 ^ 64"
  shows "signed_take_bit 63 n = (if n < 2 ^ 63 then n else n - 2 ^ 64)"
proof (cases "n < 2 ^ 63")
  case True
  then show ?thesis using assms by (simp add: signed_take_bit_int_eq_self)
next
  case False
  have "(n + 2 ^ 63) mod 2 ^ 64 = (n + 2 ^ 63 - 2 ^ 64) mod 2 ^ 64"
    by (simp only: minus_mod_self2)
  also have "\<dots> = n + 2 ^ 63 - 2 ^ 64"
    using False assms by (intro mod_pos_pos_trivial) simp_all
  finally show ?thesis
    using False by (simp add: signed_take_bit_eq_take_bit_shift take_bit_eq_mod)
qed

lemma header_number_bounds:
  assumes "header_number v = Some n"
  shows "- (2 ^ 63) \<le> n" and "n < 2 ^ 64"
proof -
  have s: "- (2 ^ 63) \<le> sint w \<and> sint w < 2 ^ 64" if "LENGTH('a) \<le> 64" for w :: "'a::len word"
  proof -
    have "(2::int) ^ (LENGTH('a) - 1) \<le> 2 ^ 63"
      by (rule power_increasing) (use that in simp_all)
    then show ?thesis
      using sint_greater_eq [of w] sint_less [of w] by simp
  qed
  have u: "- (2 ^ 63) \<le> uint w \<and> uint w < 2 ^ 64" if "LENGTH('a) \<le> 64" for w :: "'a::len word"
  proof -
    have "(2::int) ^ LENGTH('a) \<le> 2 ^ 64"
      by (rule power_increasing) (use that in simp_all)
    with uint_lt2p [of w] have "uint w < 2 ^ 64" by (rule less_le_trans)
    moreover have "- (2 ^ 63) \<le> uint w" by (rule order_trans [OF _ uint_ge_0]) simp
    ultimately show ?thesis by simp
  qed
  have "- (2 ^ 63) \<le> n \<and> n < 2 ^ 64"
    using assms
    by (elim header_number.elims; simp only: option.inject option.distinct) (hypsubst_thin, (rule s | rule u), simp)+
  then show "- (2 ^ 63) \<le> n" and "n < 2 ^ 64" by simp_all
qed

lemma to_int64_number: "header_number v = Some n \<Longrightarrow> \<exists>t. to_int64 v = Some t \<and> t = word_of_int n"
  by (cases v) auto

lemma to_int64_none: "header_number v = None \<Longrightarrow> to_int64 v = None"
  by (cases v) auto

text \<open>
  C35: an integer header is read at its value, whatever integer type it came in, so far as the
  value fits into 64 bits with sign; an unsigned value of \<open>2 ^ 63\<close> or more wraps to a
  negative one. A header that is missing or is not an integer gives the default.
\<close>

theorem int_header_value:
  "sint (IntHeader msg param def) =
    (case Option.bind (d_Headers msg) (\<lambda>h. Option.bind (map_of h param) header_number) of
       None \<Rightarrow> sint def
     | Some n \<Rightarrow> if n < 2 ^ 63 then n else n - 2 ^ 64)"
proof (cases "Option.bind (d_Headers msg) (\<lambda>h. Option.bind (map_of h param) header_number)")
  case None
  then show ?thesis
    by (auto simp: IntHeader_def bind_eq_None_conv to_int64_none split: option.splits)
next
  case (Some n)
  then obtain h v where h: "d_Headers msg = Some h" "map_of h param = Some v" and v: "header_number v = Some n"
    by (auto simp: bind_eq_Some_conv)
  from to_int64_number [OF v] have "IntHeader msg param def = word_of_int n"
    by (auto simp: IntHeader_def h)
  then show ?thesis
    using Some wrap_int64 [OF header_number_bounds [OF v]] by (simp add: sint_of_int64)
qed


section \<open>Floats keep integers\<close>

text \<open>The number the bits of a finite \<open>float64\<close> stand for.\<close>

definition float64_value :: "64 word \<Rightarrow> real" where
  "float64_value w = (let n = unat w; e = n div 2 ^ 52 mod 2 ^ 11; f = n mod 2 ^ 52;
       m = (if e = 0 then real f * 2 powi (- 1074) else real (2 ^ 52 + f) * 2 powi (int e - 1075))
     in if n div 2 ^ 63 = 1 then - m else m)"

lemma bit_length_bounds: "0 < n \<Longrightarrow> 2 ^ (bit_length n - 1) \<le> n \<and> n < 2 ^ bit_length n \<and> 0 < bit_length n"
proof (induction n rule: bit_length.induct)
  case (1 n)
  show ?case
  proof (cases "n div 2 = 0")
    case True
    with \<open>0 < n\<close> have "n = 1" by auto
    then show ?thesis by (simp add: bit_length.simps)
  next
    case False
    with 1 have "2 ^ (bit_length (n div 2) - 1) \<le> n div 2 \<and> n div 2 < 2 ^ bit_length (n div 2) \<and> 0 < bit_length (n div 2)"
      by auto
    then show ?thesis
      using \<open>0 < n\<close> by (subst (1 2 3) bit_length.simps) (cases "bit_length (n div 2)"; auto)
  qed
qed

lemma bit_length_le: "n < 2 ^ k \<Longrightarrow> bit_length n \<le> k"
proof (rule ccontr)
  assume n: "n < 2 ^ k" and "\<not> bit_length n \<le> k"
  then have "k \<le> bit_length n - 1" and "0 < n" by (auto simp: bit_length.simps intro: Nat.gr0I)
  then have "2 ^ k \<le> n"
    using bit_length_bounds [of n] power_increasing [of k "bit_length n - 1" "2::nat"] by linarith
  with n show False by simp
qed

lemma round_shift_near:
  fixes m s :: nat
  shows "2 * \<bar>int (round_shift (Suc s) m * 2 ^ Suc s) - int m\<bar> \<le> 2 ^ Suc s"
proof -
  define p where "p = (2::nat) ^ Suc s"
  define q where "q = m div p"
  define r where "r = m mod p"
  have m: "m = q * p + r" and "r < p"
    using div_mult_mod_eq [of m p] by (simp_all only: q_def r_def) (simp add: p_def)
  have "round_shift (Suc s) m = (if 2 * r > p \<or> 2 * r = p \<and> odd q then q + 1 else q)"
    unfolding round_shift_def p_def [symmetric] q_def [symmetric] r_def [symmetric] by simp
  then have "2 * \<bar>int (round_shift (Suc s) m * p) - int m\<bar> \<le> int p"
    using \<open>r < p\<close> unfolding m by (auto simp: algebra_simps)
  then show ?thesis by (simp add: p_def)
qed

lemma round_shift_range:
  assumes "2 ^ (k + s) \<le> m" and "m < 2 ^ (Suc k + s)"
  shows "2 ^ k \<le> round_shift s m" and "round_shift s m \<le> 2 ^ Suc k"
proof -
  have "2 ^ k \<le> m div 2 ^ s"
    using div_le_mono [OF assms(1), of "2 ^ s"] by (simp add: power_add)
  moreover have "m div 2 ^ s < 2 ^ Suc k"
    by (rule less_mult_imp_div_less) (use assms(2) in \<open>simp add: power_add\<close>)
  ultimately show "2 ^ k \<le> round_shift s m" and "round_shift s m \<le> 2 ^ Suc k"
    by (auto simp: round_shift_def Let_def)
qed

lemma float64_value_bits:
  assumes "f < 2 ^ 52" and "0 < e" and "e < 2047"
  shows "float64_value (of_nat (e * 2 ^ 52 + f)) = real (2 ^ 52 + f) * 2 powi (int e - 1075)"
    and "float64_value (of_nat (2 ^ 63 + (e * 2 ^ 52 + f))) = - (real (2 ^ 52 + f) * 2 powi (int e - 1075))"
proof -
  define b where "b = e * 2 ^ 52 + f"
  have b: "b < 2 ^ 63" "b div 2 ^ 52 = e" "b mod 2 ^ 52 = f"
    using assms by (auto simp: b_def)
  have "unat (of_nat b :: 64 word) = b" and "unat (of_nat (2 ^ 63 + b) :: 64 word) = 2 ^ 63 + b"
    using b(1) by (simp_all add: unat_of_nat take_bit_nat_eq_self del: of_nat_add)
  moreover have "(2 ^ 63 + b) div 2 ^ 52 = 2 ^ 11 + e"
    using b by simp
  moreover have "(2 ^ 63 + b) mod 2 ^ 52 = f"
    using b mod_mult_self1 [of b "2 ^ 11" "2 ^ 52"] by (simp add: add.commute)
  ultimately show "float64_value (of_nat (e * 2 ^ 52 + f)) = real (2 ^ 52 + f) * 2 powi (int e - 1075)"
    and "float64_value (of_nat (2 ^ 63 + (e * 2 ^ 52 + f))) = - (real (2 ^ 52 + f) * 2 powi (int e - 1075))"
    unfolding b_def [symmetric] float64_value_def Let_def using b assms by simp_all
qed

lemma float64_mantissa:
  assumes "2 ^ 52 \<le> M" and "M \<le> 2 ^ 53" and "0 < l" and "l < 1024"
  obtains e f where "(l + 1022) * 2 ^ 52 + (M - 2 ^ 52) = e * 2 ^ 52 + f" and "f < 2 ^ 52" and "0 < e" and "e < 2047"
    and "real (2 ^ 52 + f) * 2 powi (int e - 1075) = real M * 2 powi (int l - 53)"
proof (cases "M = 2 ^ 53")
  case True
  have "(2::real) powi (int (l + 1023) - 1075) = 2 * 2 powi (int l - 53)"
    by (simp add: power_int_diff power_int_add)
  then show ?thesis
    using assms True by (intro that [of "l + 1023" 0]) auto
next
  case False
  then show ?thesis
    using assms by (intro that [of "l + 1022" "M - 2 ^ 52"]) auto
qed

lemma float64_bits_near:
  assumes "0 < m" and "m < 2 ^ 64"
  obtains e f where "float64_bits m = e * 2 ^ 52 + f" and "f < 2 ^ 52" and "0 < e" and "e < 2047"
    and "\<bar>real (2 ^ 52 + f) * 2 powi (int e - 1075) - real m\<bar> \<le> (if m \<le> 2 ^ 53 then 0 else 1024)"
proof -
  define l where "l = bit_length m"
  have l: "2 ^ (l - 1) \<le> m" "m < 2 ^ l" "0 < l" "l \<le> 64"
    using bit_length_bounds [OF assms(1)] bit_length_le [OF assms(2)] by (auto simp: l_def)
  define M where "M = (if l \<le> 53 then m * 2 ^ (53 - l) else round_shift (l - 53) m)"
  have bits: "float64_bits m = (l + 1022) * 2 ^ 52 + (M - 2 ^ 52)"
    using assms by (simp add: float64_bits_def Let_def l_def M_def)
  have range: "2 ^ 52 \<le> M \<and> M \<le> 2 ^ 53"
  proof (cases "l \<le> 53")
    case True
    have "2 ^ (l - 1) * 2 ^ (53 - l) \<le> m * 2 ^ (53 - l)" and "m * 2 ^ (53 - l) \<le> 2 ^ l * 2 ^ (53 - l)"
      using l by simp_all
    with True l(3) show ?thesis by (simp add: M_def power_add [symmetric])
  next
    case False
    then have e: "52 + (l - 53) = l - 1" "Suc 52 + (l - 53) = l" by simp_all
    show ?thesis
      using round_shift_range [of 52 "l - 53" m, unfolded e, OF l(1,2)] False by (simp add: M_def)
  qed
  have near: "\<bar>real M * 2 powi (int l - 53) - real m\<bar> \<le> (if m \<le> 2 ^ 53 then 0 else 1024)"
  proof (cases "l \<le> 53")
    case True
    then have "(2::real) powi (int l - 53) = 1 / 2 ^ (53 - l)"
      by (simp add: power_int_def nat_diff_distrib inverse_eq_divide power_one_over)
    with True show ?thesis by (simp add: M_def)
  next
    case False
    then obtain s where s: "l - 53 = Suc s" and "s \<le> 10" and ls: "int l - 53 = int (Suc s)"
      using l(4) by (cases "l - 53") auto
    have p: "(2::real) powi (int l - 53) = 2 ^ Suc s"
      unfolding ls by (rule power_int_of_nat)
    have "2 * \<bar>int (M * 2 ^ Suc s) - int m\<bar> \<le> 2 ^ Suc s"
      using round_shift_near [of s m] False by (simp add: M_def s)
    also have "(2::int) ^ Suc s \<le> 2 ^ Suc 10"
      using \<open>s \<le> 10\<close> by (intro power_increasing) simp_all
    finally have "\<bar>int (M * 2 ^ Suc s) - int m\<bar> \<le> 1024" by simp
    then have "real_of_int \<bar>int (M * 2 ^ Suc s) - int m\<bar> \<le> 1024" by linarith
    then have far: "\<bar>real M * 2 ^ Suc s - real m\<bar> \<le> 1024" by simp
    show ?thesis
    proof (cases "m \<le> 2 ^ 53")
      case True
      have "(2::nat) ^ 53 \<le> 2 ^ (l - 1)"
        using False by (intro power_increasing) simp_all
      with l(1) True have m: "m = 2 ^ 53" by simp
      with l(1) have "l - 1 \<le> 53"
        using power_le_imp_le_exp [of "2::nat" "l - 1" 53] by simp
      with False have "l = 54" by simp
      then show ?thesis
        by (simp add: M_def m round_shift_def p s)
    next
      case False
      with far p show ?thesis by simp
    qed
  qed
  obtain e f where "(l + 1022) * 2 ^ 52 + (M - 2 ^ 52) = e * 2 ^ 52 + f" and "f < 2 ^ 52" and "0 < e" and "e < 2047"
    and "real (2 ^ 52 + f) * 2 powi (int e - 1075) = real M * 2 powi (int l - 53)"
    using range l(3,4) by (auto intro: float64_mantissa [of M l])
  with near bits show ?thesis by (intro that [of e f]) simp_all
qed

lemma float64_of_int_near:
  assumes "- (2 ^ 64) < i" and "i < 2 ^ 64"
  shows "\<bar>float64_value (float64_of_int i) - of_int i\<bar> \<le> (if \<bar>i\<bar> \<le> 2 ^ 53 then 0 else 1024)"
proof (cases "i = 0")
  case True
  then show ?thesis by (simp add: float64_of_int_def float64_bits_def float64_value_def)
next
  case False
  define m where "m = nat \<bar>i\<bar>"
  from False assms have "0 < m" and "m < 2 ^ 64" by (auto simp: m_def nat_less_iff)
  then obtain e f where b: "float64_bits m = e * 2 ^ 52 + f" "f < 2 ^ 52" "0 < e" "e < 2047"
    and near: "\<bar>real (2 ^ 52 + f) * 2 powi (int e - 1075) - real m\<bar> \<le> (if m \<le> 2 ^ 53 then 0 else 1024)"
    by (rule float64_bits_near)
  note v = float64_value_bits [OF b(2-4), folded b(1)]
  have le: "m \<le> 2 ^ 53 \<longleftrightarrow> \<bar>i\<bar> \<le> 2 ^ 53" by (simp add: m_def nat_le_iff)
  show ?thesis
  proof (cases "i < 0")
    case True
    then have "float64_of_int i = of_nat (2 ^ 63 + float64_bits m)" and i: "of_int i = - real m"
      by (simp_all add: float64_of_int_def m_def)
    then have "float64_value (float64_of_int i) - of_int i = - (real (2 ^ 52 + f) * 2 powi (int e - 1075) - real m)"
      using v(2) by simp
    with near show ?thesis unfolding le by (simp only: abs_minus)
  next
    case False
    then have "float64_of_int i = of_nat (float64_bits m)" and i: "of_int i = real m"
      by (simp_all add: float64_of_int_def m_def)
    with near v(1) show ?thesis unfolding le by (simp only:)
  qed
qed

lemma to_float64_number: "header_number v = Some n \<Longrightarrow> to_float64 v = Some (float64_of_int n)"
  by (cases v) auto

text \<open>
  C36: an integer header read as a float keeps its value up to \<open>2 ^ 53\<close>; a larger one is off by
  at most 1024, whatever integer type it came in.
\<close>

theorem float_header_near:
  assumes "d_Headers msg = Some h" and "map_of h param = Some v" and "header_number v = Some n"
  shows "\<bar>float64_value (FloatHeader msg param def) - of_int n\<bar> \<le> (if \<bar>n\<bar> \<le> 2 ^ 53 then 0 else 1024)"
proof -
  have "FloatHeader msg param def = float64_of_int n"
    using assms to_float64_number by (simp add: FloatHeader_def)
  then show ?thesis
    using float64_of_int_near [of n] header_number_bounds [OF assms(3)] by simp
qed

theorem float_header_near_witness:
  "\<exists>msg. d_Headers msg = Some [(''n'', VUint64 9007199254740993)] \<and>
     \<bar>float64_value (FloatHeader msg ''n'' 0) - 9007199254740993\<bar> \<le> 1024"
proof -
  define msg :: msg_in where "msg = \<lparr>d_Headers = Some [(''n'', VUint64 9007199254740993)], d_ContentType = '''',
     d_ContentEncoding = '''', d_DeliveryMode = 0, d_CorrelationId = '''', d_ReplyTo = '''', d_Expiration = '''',
     d_MessageId = '''', d_Timestamp = ZeroTime, d_Type = '''', d_DeliveryTag = 1, d_RoutingKey = '''', d_Body = []\<rparr>"
  have "\<bar>float64_value (FloatHeader msg ''n'' 0) - of_int 9007199254740993\<bar> \<le> (if \<bar>9007199254740993 :: int\<bar> \<le> 2 ^ 53 then 0 else 1024)"
    by (rule float_header_near [of msg "[(''n'', VUint64 9007199254740993)]" "''n''" "VUint64 9007199254740993"])
      (simp_all add: msg_def)
  then show ?thesis by (intro exI [of _ msg]) (simp add: msg_def)
qed

section \<open>The context ends with the parent or on an interrupt\<close>

lemma SignalContext_done: "SignalContext evs \<noteq> None \<longleftrightarrow> (\<exists>ev \<in> set evs. ev = Signalled Interrupt \<or> (\<exists>e. ev = ParentDone e))"
  by (induction evs rule: SignalContext.induct) auto

lemma SignalContext_first: "SignalContext (evs @ evs') = (case SignalContext evs of None \<Rightarrow> SignalContext evs' | Some e \<Rightarrow> Some e)"
  by (induction evs rule: SignalContext.induct) auto

end
