(* ===== verification/Command_Tools.thy ===== *)
theory Command_Tools
  imports Certs Broker_Config
begin

text \<open>
  What the three commands under \<open>cmd/\<close> have in common: the exit status, the broker they start
  and the exchange a sink is bound to. Parsing the command line is left out: the options of a
  command are a record of its own.
\<close>

text \<open>
  The end of \<open>main\<close>: \<open>bad\<close> says that the arguments could not be parsed, \<open>result\<close> is the error
  of \<open>run\<close>.
\<close>

definition command_status :: "bool \<Rightarrow> bool \<Rightarrow> go_error option \<Rightarrow> nat" where
  "command_status version bad result = (if version then 0 else if bad then 1 else if result \<noteq> None then 2 else 0)"

text \<open>The context is the one that ends on a signal, the logger the command's own.\<close>

definition command_broker :: "string list \<Rightarrow> 64 word \<Rightarrow> 64 word \<Rightarrow> broker_config" where
  "command_broker urls interval timeout = broker_Timeout timeout (broker_Interval interval
     (broker_Logger (UserLogger 0) (broker_Context (UserContext 0) (Broker urls))))"

text \<open>\<open>SinkConfig.Validate\<close> on a certificate file (\<open>sink_Validate\<close> with files and checks given).\<close>

type_synonym validate = "string \<Rightarrow> sink_config \<Rightarrow> sink_config outcome option"

definition validate_lazy :: "validate \<Rightarrow> string \<Rightarrow> bool \<Rightarrow> sink_config \<Rightarrow> sink_config outcome option" where
  "validate_lazy validate verify lazy snk =
     map_option (\<lambda>r. bind_outcome r (\<lambda>snk1. Value (if lazy then Lazy snk1 else snk1)))
       (if verify \<noteq> '''' then validate verify snk else Some (Value snk))"

text \<open>An exchange whose kind is given by name, and its routing keys.\<close>

definition bind_kind :: "string \<Rightarrow> string \<Rightarrow> string list \<Rightarrow> sink_config \<Rightarrow> go_error + sink_config" where
  "bind_kind kind name keys snk =
     (let bound = (\<lambda>s. Inr (on_exchange (length (sk_bindings snk)) (exchange_Key keys) s)) in
      if kind = ''topic'' then bound (sink_Topic name snk)
      else if kind = ''direct'' then bound (sink_Direct name snk)
      else if kind = ''fanout'' then bound (sink_Fanout name snk)
      else Inl (Err (''unknown exchange type '' @ kind)))"

definition writer_kind :: "string \<Rightarrow> string \<Rightarrow> writer_config \<Rightarrow> go_error + writer_config" where
  "writer_kind kind name wc =
     (if kind = ''topic'' then Inr (DefaultTopic name wc)
      else if kind = ''direct'' then Inr (DefaultDirect name wc)
      else if kind = ''fanout'' then Inr (DefaultFanout name wc)
      else Inl (Err (''unknown exchange type '' @ kind)))"

lemma writer_kind_middleware: "writer_kind kind name wc = Inr wc' \<Longrightarrow> wc_middleware wc' = wc_middleware wc"
  by (auto simp: writer_kind_def DefaultTopic_def DefaultDirect_def DefaultFanout_def withExchange_def split: if_splits)

end
