(* ===== verification/Exec_Tool.thy ===== *)
theory Exec_Tool
  imports "HOL-Library.List_Lexorder" "HOL-Library.Char_ord" Command_Tools Publisher
begin

text \<open>
  \<open>cmd/amqp-exec/main.go\<close>: a program run for each delivery, whose output is published. The
  functions of the command: its set-up over the library, the environment and the output of the
  program, and the message built for a piece of output. The files, the certificate checks and the
  program are arguments.
\<close>

section \<open>Options and set-up\<close>

record exec_config =
  xc_URLs :: "string list"
  xc_Exchange :: string
  xc_ExchangeType :: string
  xc_Verify :: string
  xc_Queue :: string
  xc_Lazy :: bool
  xc_Interval :: "64 word"
  xc_RetryLimit :: "64 word"
  xc_RetryInterval :: "64 word"
  xc_Timeout :: "64 word"
  xc_Quiet :: bool
  xc_Version :: bool
  xc_RoutingKey :: "string list"
  xc_PubExchange :: string
  xc_PubExchangeType :: string
  xc_PubKey :: string
  xc_PubEmpty :: bool
  xc_PubHeader :: "string gomap"
  xc_CopyMessageText :: string
  xc_ExportEnv :: "string list"
  xc_Multiline :: bool
  xc_App :: string
  xc_Params :: "string list"

record exec_handler =
  xh_autoReply :: bool
  xh_emptyPublish :: bool
  xh_multiLine :: bool
  xh_copyText :: string
  xh_exportEnv :: "string list"
  xh_headers :: "string gomap"

definition exec_main :: "exec_config \<Rightarrow> bool \<Rightarrow> go_error option \<Rightarrow> nat" where
  "exec_main cfg = command_status (xc_Version cfg)"

definition exec_broker :: "exec_config \<Rightarrow> broker_config" where
  "exec_broker cfg = command_broker (xc_URLs cfg) (xc_Interval cfg) (xc_Timeout cfg)"

definition exec_sink :: "validate \<Rightarrow> exec_config \<Rightarrow> sink_config outcome option" where
  "exec_sink validate cfg = validate_lazy validate (xc_Verify cfg) (xc_Lazy cfg)
     (sink_Requeue (xc_RetryInterval cfg) (Retries (xc_RetryLimit cfg) (server_Sink (exec_broker cfg) (xc_Queue cfg))))"

definition exec_publisher :: "exec_config \<Rightarrow> go_error + writer_config" where
  "exec_publisher cfg =
     (let publisher = server_Publisher (exec_broker cfg) in
      if xc_PubKey cfg \<noteq> '''' then
        (let keyed = DefaultKey (xc_PubKey cfg) publisher in
         if xc_PubExchange cfg \<noteq> '''' then writer_kind (xc_PubExchangeType cfg) (xc_PubExchange cfg) keyed else Inr keyed)
      else Inr publisher)"

definition exec_handler_of :: "exec_config \<Rightarrow> exec_handler" where
  "exec_handler_of cfg = \<lparr>xh_autoReply = (xc_PubKey cfg \<noteq> ''''), xh_emptyPublish = xc_PubEmpty cfg,
     xh_multiLine = xc_Multiline cfg, xh_copyText = xc_CopyMessageText cfg,
     xh_exportEnv = xc_ExportEnv cfg, xh_headers = xc_PubHeader cfg\<rparr>"

definition exec_exchange :: "exec_config \<Rightarrow> sink_config \<Rightarrow> go_error + sink_config" where
  "exec_exchange cfg snk =
     (if xc_Exchange cfg \<noteq> '''' then bind_kind (xc_ExchangeType cfg) (xc_Exchange cfg) (xc_RoutingKey cfg) snk
      else Inr snk)"

text \<open>
  The error \<open>run\<close> returns and the handlers it has registered with the server by then: a run
  without error goes on until the server has finished.
\<close>

definition exec_run :: "validate \<Rightarrow> exec_config \<Rightarrow> (go_error option \<times> state_handler list) outcome option" where
  "exec_run validate cfg = map_option (\<lambda>r. bind_outcome r (\<lambda>snk. Value (
     case exec_publisher cfg of
       Inl e \<Rightarrow> (Some e, [])
     | Inr wc \<Rightarrow> (let hs = writer_Create wc [] in
         case exec_exchange cfg snk of
           Inl e \<Rightarrow> (Some e, hs)
         | Inr snk1 \<Rightarrow> (None, sink_TransactFunc snk1 hs))))) (exec_sink validate cfg)"

section \<open>The program\<close>

text \<open>
  \<open>fmt.Sprint\<close> of a header value. The shortest decimal form of a float is an argument.
\<close>

definition join :: "string \<Rightarrow> string list \<Rightarrow> string" where
  "join sep xs = concat (case xs of [] \<Rightarrow> [] | y # ys \<Rightarrow> y # map (\<lambda>z. sep @ z) ys)"

fun sprint :: "(64 word \<Rightarrow> string) \<Rightarrow> (32 word \<Rightarrow> string) \<Rightarrow> amqp_value \<Rightarrow> string" where
  "sprint f g VNil = ''<nil>''"
| "sprint f g (VBool b) = (if b then ''true'' else ''false'')"
| "sprint f g (VInt w) = format_int (sint w)"
| "sprint f g (VInt8 w) = format_int (sint w)"
| "sprint f g (VInt16 w) = format_int (sint w)"
| "sprint f g (VInt32 w) = format_int (sint w)"
| "sprint f g (VInt64 w) = format_int (sint w)"
| "sprint f g (VUint w) = format_int (uint w)"
| "sprint f g (VUint8 w) = format_int (uint w)"
| "sprint f g (VUint16 w) = format_int (uint w)"
| "sprint f g (VUint32 w) = format_int (uint w)"
| "sprint f g (VUint64 w) = format_int (uint w)"
| "sprint f g (VFloat32 w) = g w"
| "sprint f g (VFloat64 w) = f w"
| "sprint f g (VString s) = s"
| "sprint f g (VBytes s) = ''['' @ join '' '' (map (\<lambda>c. format_nat (of_char c)) s) @ '']''"
| "sprint f g (VArray vs) = ''['' @ join '' '' (map (sprint f g) vs) @ '']''"
| "sprint f g (VTable t) =
     ''map['' @ join '' '' (map (\<lambda>(k, v). k @ '':'' @ v) (sort_key fst (map (\<lambda>(k, v). (k, sprint f g v)) t))) @ '']''"

text \<open>\<open>Timestamp.Unix()\<close>: whole seconds since 1970; the zero time is the first of January of year 1.\<close>

fun unix_seconds :: "stamp \<Rightarrow> int" where
  "unix_seconds ZeroTime = - 62135596800"
| "unix_seconds (LocalTime t) = t div 1000000000"
| "unix_seconds (UtcTime t) = t div 1000000000"

record command =
  cmd_Path :: string
  cmd_Args :: "string list"
  cmd_Env :: "string list"
  cmd_Stdin :: bytes

definition envelope :: "msg_in \<Rightarrow> (string \<times> string) list" where
  "envelope msg =
     [(''MESSAGE_ID'', d_MessageId msg), (''MESSAGE_TYPE'', d_Type msg), (''CONTENT_TYPE'', d_ContentType msg),
      (''SUBJECT'', d_RoutingKey msg), (''TIMESTAMP'', format_int (unix_seconds (d_Timestamp msg))),
      (''CORRELATION_ID'', d_CorrelationId msg)]"

definition env_entry :: "string \<times> string \<Rightarrow> string" where
  "env_entry = (\<lambda>(name, v). name @ ''='' @ v)"

text \<open>\<open>show_value\<close> is \<open>fmt.Sprint\<close>, \<open>environ\<close> the environment of the command itself.\<close>

definition makeCmd :: "(amqp_value \<Rightarrow> string) \<Rightarrow> string list \<Rightarrow> exec_config \<Rightarrow> msg_in \<Rightarrow> command" where
  "makeCmd show_value environ cfg msg = \<lparr>cmd_Path = xc_App cfg, cmd_Args = xc_Params cfg,
     cmd_Env = environ @ map env_entry (envelope msg) @
       map env_entry (map (\<lambda>(name, v). (name, show_value v)) (case d_Headers msg of None \<Rightarrow> [] | Some t \<Rightarrow> t)),
     cmd_Stdin = d_Body msg\<rparr>"

text \<open>
  What running a program comes to: the error of starting it, its error when it has ended (a
  status other than zero), and all it wrote to its standard output.
\<close>

record process =
  pr_start :: "go_error option"
  pr_exit :: "go_error option"
  pr_stdout :: bytes

definition runApplication :: "process \<Rightarrow> go_error + bytes" where
  "runApplication pr =
     (case pr_start pr of
        Some e \<Rightarrow> Inl e
      | None \<Rightarrow> (case pr_exit pr of Some e \<Rightarrow> Inl e | None \<Rightarrow> Inr (pr_stdout pr)))"

text \<open>
  The standard library's \<open>bufio.Scanner\<close>, as the code uses it. It gives the lines without the
  line feed and one carriage return before it, the last one also if it has no line feed but is
  not empty. The scanner stops, here with \<open>True\<close>, at a line that does not fit into its buffer of
  64 KiB together with its line feed.
\<close>

definition drop_cr :: "bytes \<Rightarrow> bytes" where
  "drop_cr l = (if l \<noteq> [] \<and> last l = CHR 0x0D then butlast l else l)"

definition max_token :: nat where
  "max_token = 64 * 1024"

function scan_lines :: "bytes \<Rightarrow> bytes list \<times> bool" where
  "scan_lines s =
     (if s = [] then ([], False)
      else let l = takeWhile (\<lambda>c. c \<noteq> CHR 0x0A) s; rest = dropWhile (\<lambda>c. c \<noteq> CHR 0x0A) s in
        if max_token \<le> length l then ([], True)
        else case rest of
            [] \<Rightarrow> ([drop_cr l], False)
          | _ # s' \<Rightarrow> (case scan_lines s' of (ls, too_long) \<Rightarrow> (drop_cr l # ls, too_long)))"
  by pat_completeness auto
termination
proof (relation "measure length")
  fix s l rest :: bytes and c s'
  assume "rest = dropWhile (\<lambda>c. c \<noteq> CHR 0x0A) s" and "rest = c # s'"
  then have "length (c # s') \<le> length s"
    using length_dropWhile_le [of "\<lambda>c. c \<noteq> CHR 0x0A" s] by metis
  then show "(s', s) \<in> measure length" by simp
qed simp

declare scan_lines.simps [simp del]

definition runMultiLineApplication :: "process \<Rightarrow> go_error + bytes list" where
  "runMultiLineApplication pr =
     (case pr_start pr of Some e \<Rightarrow> Inl e | None \<Rightarrow> Inr (fst (scan_lines (pr_stdout pr))))"

section \<open>Publishing what the program wrote\<close>

text \<open>
  The message for a piece of output: a reply where the delivery asks for one, else to the
  default key where one is set. \<open>now\<close> is the clock and \<open>getenv\<close> is \<open>os.Getenv\<close>.
\<close>

definition exec_message ::
    "exec_handler \<Rightarrow> writer_config \<Rightarrow> (string \<Rightarrow> string) \<Rightarrow> stamp \<Rightarrow> msg_in \<Rightarrow> bytes \<Rightarrow> heap \<Rightarrow> (message \<times> heap) option" where
  "exec_message h wc getenv now msg data hp =
     (let out = (if d_ReplyTo msg \<noteq> '''' then Some (Message_Bytes data (writer_Reply wc now msg))
                 else if xh_autoReply h then Some (Message_Bytes data (Prepare wc now)) else None)
      in map_option (\<lambda>m.
           let m1 = (if xh_copyText h \<noteq> '''' then Message_Header (xh_copyText h) (VString (d_Body msg)) (m, hp) else (m, hp));
               m2 = fold (\<lambda>(k, v). Message_Header k (VString v)) (xh_headers h) m1
           in fold (\<lambda>name. Message_Header name (VString (getenv name))) (xh_exportEnv h) m2) out)"

text \<open>
  \<open>None\<close>: nothing to publish. \<open>Some (Inr d)\<close>: \<open>PublishWait\<close> waits on channel \<open>d\<close>.
\<close>

definition exec_send ::
    "exec_handler \<Rightarrow> writer_config \<Rightarrow> (string \<Rightarrow> string) \<Rightarrow> stamp \<Rightarrow> msg_in \<Rightarrow> bytes \<Rightarrow> writer_world \<Rightarrow>
     ((go_error + nat) option \<times> writer_world) outcome" where
  "exec_send h wc getenv now msg data w =
     (if data = [] \<and> \<not> xh_emptyPublish h then Value (None, w)
      else case exec_message h wc getenv now msg data (ww_heap w) of
          None \<Rightarrow> Value (None, w)
        | Some (out, hp) \<Rightarrow>
            bind_outcome (PublishWait wc out (w\<lparr>ww_heap := hp\<rparr>)) (\<lambda>(r, w'). Value (Some r, w')))"

section \<open>The set-up\<close>

text \<open>
  What a run without certificate and without error registers: the publisher, then the sink with
  its limits, acknowledging by hand, then the requeuer of the sink's queue.
\<close>

lemma exec_run_registers:
  assumes "xc_Verify cfg = ''''" and "xc_Exchange cfg = ''''" and "exec_publisher cfg = Inr wc"
  shows "\<exists>snk. exec_run validate cfg = Some (Value (None, [PublisherHandler wc, SinkHandler snk,
      RequeueHandler \<lparr>rc_queueName = xc_Queue cfg @ ''/requeue'', rc_targetQueue = xc_Queue cfg, rc_timeout = xc_RetryInterval cfg\<rparr>])) \<and>
    sk_queueName snk = xc_Queue cfg \<and> sk_retries snk = xc_RetryLimit cfg \<and> \<not> sk_autoAck snk"
  using assms
  by (simp add: exec_run_def exec_sink_def validate_lazy_def exec_exchange_def writer_Create_def sink_TransactFunc_def sink_HandlerFunc_def
      ManualAck_def sink_Requeue_def server_Sink_def requeue_Create_def requeue_Timeout_def newRequeue_def
      Retries_def Lazy_def sink_Attr_def builder_simps Let_def)

section \<open>The environment of the program\<close>

text \<open>
  The value of a variable in a list of entries, as \<open>exec.Cmd\<close> hands it on: the name ends at the
  first equals sign, and the last entry for a name counts.
\<close>

definition entry_name :: "string \<Rightarrow> string" where
  "entry_name = takeWhile (\<lambda>c. c \<noteq> CHR ''='')"

definition env_value :: "string list \<Rightarrow> string \<Rightarrow> string option" where
  "env_value env name =
     (case filter (\<lambda>e. CHR ''='' \<in> set e \<and> entry_name e = name) (rev env) of
        [] \<Rightarrow> None | e # _ \<Rightarrow> Some (drop (Suc (length name)) e))"

lemma entry_name_entry [simp]: "CHR ''='' \<notin> set name \<Longrightarrow> entry_name (name @ CHR ''='' # v) = name"
  by (simp add: entry_name_def takeWhile_append)

lemma env_value_Nil [simp]: "env_value [] name = None"
  by (simp add: env_value_def)

lemma env_value_append: "env_value (env @ env') name = (case env_value env' name of None \<Rightarrow> env_value env name | Some v \<Rightarrow> Some v)"
  by (simp add: env_value_def split: list.split)

lemma env_value_entry: "CHR ''='' \<notin> set name \<Longrightarrow>
    env_value [env_entry (name, v)] name' = (if name' = name then Some v else None)"
  by (auto simp: env_value_def env_entry_def)

lemma map_of_rev_distinct: "distinct (map fst xs) \<Longrightarrow> map_of (rev xs) = map_of xs"
  by (intro ext) (metis map_of_eq_Some_iff distinct_rev rev_map set_rev not_None_eq)

lemma env_value_entries:
  "\<forall>(k, v) \<in> set kvs. CHR ''='' \<notin> set k \<Longrightarrow> env_value (map env_entry kvs) name = map_of (rev kvs) name"
proof (induction kvs)
  case (Cons kv kvs)
  obtain k v where kv: "kv = (k, v)" by (cases kv)
  have "env_value (map env_entry (kv # kvs)) name = env_value ([env_entry kv] @ map env_entry kvs) name" by simp
  with Cons kv show ?case
    by (simp only: env_value_append) (auto simp: env_value_entry map_add_def split: option.splits)
qed simp

text \<open>
  C40: A variable of the program's environment: a header of the message of that name, else the
  property of the message it stands for, else the value in the environment of the command
  itself. So a header overrides the message's own identifier, type or subject. The names of the
  headers have no equals sign.
\<close>

theorem program_environment:
  assumes "\<forall>(k, v) \<in> set (case d_Headers msg of None \<Rightarrow> [] | Some t \<Rightarrow> t). CHR ''='' \<notin> set k"
    and "distinct (map fst (case d_Headers msg of None \<Rightarrow> [] | Some t \<Rightarrow> t))"
  shows "env_value (cmd_Env (makeCmd show_value environ cfg msg)) name =
    (case map_get (d_Headers msg) name of
       Some v \<Rightarrow> Some (show_value v)
     | None \<Rightarrow> (case map_of (envelope msg) name of Some v \<Rightarrow> Some v | None \<Rightarrow> env_value environ name))"
proof -
  let ?t = "case d_Headers msg of None \<Rightarrow> [] | Some t \<Rightarrow> t"
  have headers: "env_value (map env_entry (map (\<lambda>(name, v). (name, show_value v)) ?t)) name =
      map_option show_value (map_get (d_Headers msg) name)"
  proof -
    have "env_value (map env_entry (map (\<lambda>(k, v). (k, show_value v)) ?t)) name =
        map_of (rev (map (\<lambda>(k, v). (k, show_value v)) ?t)) name"
      using assms(1) by (intro env_value_entries) auto
    also have "\<dots> = map_of (map (\<lambda>(k, v). (k, show_value v)) ?t) name"
      using assms(2) by (subst map_of_rev_distinct) (simp_all add: comp_def case_prod_beta)
    also have "\<dots> = map_option show_value (map_get (d_Headers msg) name)"
      by (simp add: map_of_map map_get_def split: option.split)
    finally show ?thesis .
  qed
  have "env_value (map env_entry (envelope msg)) name = map_of (rev (envelope msg)) name"
    by (rule env_value_entries) (simp add: envelope_def)
  also have "\<dots> = map_of (envelope msg) name"
    by (subst map_of_rev_distinct) (simp_all add: envelope_def)
  finally show ?thesis
    unfolding makeCmd_def command.simps env_value_append headers by (simp split: option.split)
qed

section \<open>Lines\<close>

text \<open>
  The scanner takes a text apart into the lines it was written from: lines without line feed,
  without a carriage return at the end and shorter than 64 KiB, each written with a line feed.
\<close>

lemma scan_lines_round_trip:
  assumes "\<forall>l \<in> set ls. CHR 0x0A \<notin> set l \<and> (l = [] \<or> last l \<noteq> CHR 0x0D) \<and> length l < max_token"
  shows "scan_lines (concat (map (\<lambda>l. l @ [CHR 0x0A]) ls)) = (ls, False)"
  using assms
proof (induction ls)
  case (Cons l ls)
  then show ?case
    by (subst scan_lines.simps) (auto simp: takeWhile_append dropWhile_append drop_cr_def Let_def split: list.split)
qed (simp add: scan_lines.simps)

definition demo_options :: exec_config where
  "demo_options = \<lparr>xc_URLs = [''amqp://host''], xc_Exchange = '''', xc_ExchangeType = ''direct'', xc_Verify = '''',
     xc_Queue = ''q'', xc_Lazy = False, xc_Interval = 5 * second, xc_RetryLimit = - 1, xc_RetryInterval = 5 * second,
     xc_Timeout = 30 * second, xc_Quiet = False, xc_Version = False, xc_RoutingKey = [], xc_PubExchange = '''', xc_PubExchangeType = ''direct'',
     xc_PubKey = ''out'', xc_PubEmpty = False, xc_PubHeader = [], xc_CopyMessageText = '''', xc_ExportEnv = [],
     xc_Multiline = True, xc_App = ''/bin/cat'', xc_Params = []\<rparr>"

text \<open>A header takes the place of the routing key the message came with.\<close>

theorem program_environment_witness:
  "env_value (cmd_Env (makeCmd (sprint (\<lambda>_. ''0'') (\<lambda>_. ''0'')) [''SUBJECT=old'', ''HOME=/root''] demo_options
     (demo_delivery\<lparr>d_Headers := Some [(''SUBJECT'', VBool True)]\<rparr>))) ''SUBJECT'' = Some ''true''"
  using program_environment [of "demo_delivery\<lparr>d_Headers := Some [(''SUBJECT'', VBool True)]\<rparr>"
      "sprint (\<lambda>_. ''0'') (\<lambda>_. ''0'')" "[''SUBJECT=old'', ''HOME=/root'']" demo_options "''SUBJECT''"]
  by (simp add: map_get_def)


text \<open>
  The status the program ends with matters only where its output is taken as a whole: line by
  line, what it wrote before it failed is published and its failure goes unnoticed. So does a
  line that is too long, with everything after it.
\<close>

lemma multiline_ignores_exit: "runMultiLineApplication (pr\<lparr>pr_exit := Some e\<rparr>) = runMultiLineApplication pr"
  by (simp add: runMultiLineApplication_def split: option.split)

lemma scan_lines_too_long:
  assumes "CHR 0x0A \<notin> set l" and "max_token \<le> length l"
  shows "scan_lines (l @ rest) = ([], True)"
proof -
  have "length l \<le> length (takeWhile (\<lambda>c. c \<noteq> CHR 0x0A) (l @ rest))"
    using assms(1) by (subst takeWhile_append2) auto
  moreover have "l \<noteq> []" using assms(2) by (auto simp: max_token_def)
  ultimately show ?thesis
    using assms(2) by (subst scan_lines.simps) (auto simp: Let_def)
qed

end
