(* ===== verification/Exec_Transaction.thy ===== *)
theory Exec_Transaction
  imports Exec_Tool "HOL-Library.Sublist"
begin

text \<open>
  \<open>handler.Handle\<close> of \<open>cmd/amqp-exec/main.go\<close> as a transaction that runs along with the publisher:
  it starts the program, publishes each piece of its output and waits until the piece is
  published, or its context ends. What it does while it waits is up to the other goroutines:
  the publisher's loop, the connection, other clients of the same writer.
\<close>

section \<open>The transaction\<close>

text \<open>
  The pieces \<open>Handle\<close> publishes, or its error. The places hold the delivery, what the program
  did, the pieces \<open>send\<close> has returned nil for and those that are left, and in \<open>XWaiting\<close>
  between them the piece that is being published.
\<close>

definition exec_pieces :: "exec_handler \<Rightarrow> process \<Rightarrow> go_error + bytes list" where
  "exec_pieces h pr =
     (if xh_multiLine h then runMultiLineApplication pr
      else case runApplication pr of Inl e \<Rightarrow> Inl e | Inr data \<Rightarrow> Inr [data])"

datatype exec_place =
    XIdle
  | XSending msg_in process "bytes list" "bytes list"
  | XWaiting msg_in process "bytes list" bytes nat "bytes list"
  | XReturned msg_in process "go_error option"

record exec_sys =
  xs_writer :: writer_sys
  xs_place :: exec_place

definition exec_start :: "exec_sys \<Rightarrow> bool" where
  "exec_start s \<longleftrightarrow> writer_start (xs_writer s) \<and> xs_place s = XIdle"

definition exec_Handle :: "exec_handler \<Rightarrow> msg_in \<Rightarrow> process \<Rightarrow> exec_place" where
  "exec_Handle h msg pr =
     (case exec_pieces h pr of Inl e \<Rightarrow> XReturned msg pr (Some e) | Inr ls \<Rightarrow> XSending msg pr [] ls)"

definition exec_sent :: "msg_in \<Rightarrow> process \<Rightarrow> bytes list \<Rightarrow> bytes \<Rightarrow> bytes list \<Rightarrow> (go_error + nat) option \<Rightarrow> exec_place" where
  "exec_sent msg pr done l ls r =
     (case r of
        None \<Rightarrow> XSending msg pr (done @ [l]) ls
      | Some (Inl e) \<Rightarrow> XReturned msg pr (Some e)
      | Some (Inr d) \<Rightarrow> XWaiting msg pr done l d ls)"

text \<open>\<open>runs cmd pr\<close>: the program may do \<open>pr\<close> when it is run as \<open>cmd\<close>.\<close>

inductive exec_step ::
    "broker \<Rightarrow> writer_config \<Rightarrow> exec_handler \<Rightarrow> (msg_in \<Rightarrow> command) \<Rightarrow> (command \<Rightarrow> process \<Rightarrow> bool) \<Rightarrow> exec_sys \<Rightarrow> exec_sys \<Rightarrow> bool"
  for b :: broker and wc :: writer_config and h :: exec_handler and cmd_of :: "msg_in \<Rightarrow> command"
    and runs :: "command \<Rightarrow> process \<Rightarrow> bool" where
  exec_others: "writer_step b wc (xs_writer s) t \<Longrightarrow> exec_step b wc h cmd_of runs s (s\<lparr>xs_writer := t\<rparr>)"
| exec_begin: "xs_place s = XIdle \<Longrightarrow> runs (cmd_of msg) pr \<Longrightarrow>
    exec_step b wc h cmd_of runs s (s\<lparr>xs_place := exec_Handle h msg pr\<rparr>)"
| exec_publish: "xs_place s = XSending msg pr done (l # ls) \<Longrightarrow>
    exec_send h wc getenv now msg l (ws_world (xs_writer s)) = Value (r, w) \<Longrightarrow>
    exec_step b wc h cmd_of runs s
      (s\<lparr>xs_writer := (xs_writer s)\<lparr>ws_world := w\<rparr>, xs_place := exec_sent msg pr done l ls r\<rparr>)"
| exec_wait: "xs_place s = XWaiting msg pr done l d ls \<Longrightarrow>
    r \<in> set (publish_wait_results (ws_world (xs_writer s)) d ctx) \<Longrightarrow>
    exec_step b wc h cmd_of runs s (s\<lparr>xs_place :=
      (case r of None \<Rightarrow> XSending msg pr (done @ [l]) ls | Some e \<Rightarrow> XReturned msg pr (Some e))\<rparr>)"
| exec_end: "xs_place s = XSending msg pr done [] \<Longrightarrow>
    exec_step b wc h cmd_of runs s (s\<lparr>xs_place := XReturned msg pr None\<rparr>)"
| exec_next: "xs_place s = XReturned msg pr r \<Longrightarrow> exec_step b wc h cmd_of runs s (s\<lparr>xs_place := XIdle\<rparr>)"

section \<open>What a piece of output is published as\<close>

definition exec_publishes :: "exec_handler \<Rightarrow> msg_in \<Rightarrow> bytes \<Rightarrow> bool" where
  "exec_publishes h msg l \<longleftrightarrow> (l \<noteq> [] \<or> xh_emptyPublish h) \<and> (d_ReplyTo msg \<noteq> '''' \<or> xh_autoReply h)"

text \<open>A reply goes to the queue that was asked for, with the identifier it was asked with.\<close>

definition carries :: "writer_config \<Rightarrow> msg_in \<Rightarrow> bytes \<Rightarrow> qmsg \<Rightarrow> bool" where
  "carries wc msg l m \<longleftrightarrow> p_Body (m_Msg m) = l \<and>
     (if d_ReplyTo msg \<noteq> ''''
      then m_Exchange m = '''' \<and> m_Key m = d_ReplyTo msg \<and> p_CorrelationId (m_Msg m) = d_CorrelationId msg
      else m_Exchange m = wc_exchange wc \<and> m_Key m = wc_topic wc)"

subsection \<open>Headers do not change what a message carries\<close>

lemma Message_Header_keeps:
  "Message_Header k v (m, hp) = (m', hp') \<Longrightarrow> msg_exchange m' = msg_exchange m \<and> msg_key m' = msg_key m \<and>
     p_Body (msg_msg m') = p_Body (msg_msg m) \<and> p_CorrelationId (msg_msg m') = p_CorrelationId (msg_msg m)"
  by (auto simp: Message_Header_def header_put_def split: option.splits)

lemma fold_headers_keep:
  "fold (\<lambda>x. Message_Header (f x) (g x)) xs (m, hp) = (m', hp') \<Longrightarrow> msg_exchange m' = msg_exchange m \<and> msg_key m' = msg_key m \<and>
     p_Body (msg_msg m') = p_Body (msg_msg m) \<and> p_CorrelationId (msg_msg m') = p_CorrelationId (msg_msg m)"
proof (induction xs arbitrary: m hp)
  case (Cons x xs)
  obtain m1 hp1 where 1: "Message_Header (f x) (g x) (m, hp) = (m1, hp1)" by (meson surj_pair)
  with Cons.IH [of m1 hp1] Cons.prems Message_Header_keeps [OF 1] show ?case by simp
qed simp

lemma exec_message_carries:
  assumes "exec_message h wc getenv now msg l hp = Some (out, hp')"
  shows "p_Body (msg_msg out) = l \<and> msg_exchange out = (if d_ReplyTo msg \<noteq> '''' then '''' else wc_exchange wc) \<and>
    msg_key out = (if d_ReplyTo msg \<noteq> '''' then d_ReplyTo msg else wc_topic wc) \<and>
    (d_ReplyTo msg \<noteq> '''' \<longrightarrow> p_CorrelationId (msg_msg out) = d_CorrelationId msg)"
proof -
  let ?m0 = "if d_ReplyTo msg \<noteq> '''' then Message_Bytes l (writer_Reply wc now msg) else Message_Bytes l (Prepare wc now)"
  obtain m1 hp1 where 1: "(if xh_copyText h \<noteq> '''' then Message_Header (xh_copyText h) (VString (d_Body msg)) (?m0, hp) else (?m0, hp)) = (m1, hp1)"
    by (meson surj_pair)
  obtain m2 hp2 where 2: "fold (\<lambda>(k, v). Message_Header k (VString v)) (xh_headers h) (m1, hp1) = (m2, hp2)"
    by (meson surj_pair)
  have 3: "fold (\<lambda>name. Message_Header name (VString (getenv name))) (xh_exportEnv h) (m2, hp2) = (out, hp')"
    using assms 1 2 by (simp add: exec_message_def Let_def split: if_splits)
  have "msg_exchange m1 = msg_exchange ?m0 \<and> msg_key m1 = msg_key ?m0 \<and> p_Body (msg_msg m1) = p_Body (msg_msg ?m0) \<and>
      p_CorrelationId (msg_msg m1) = p_CorrelationId (msg_msg ?m0)"
    using 1 by (cases "xh_copyText h = ''''") (auto dest: Message_Header_keeps)
  moreover have "msg_exchange m2 = msg_exchange m1 \<and> msg_key m2 = msg_key m1 \<and> p_Body (msg_msg m2) = p_Body (msg_msg m1) \<and>
      p_CorrelationId (msg_msg m2) = p_CorrelationId (msg_msg m1)"
    using fold_headers_keep [of fst "\<lambda>x. VString (snd x)" "xh_headers h" m1 hp1 m2 hp2] 2
    by (simp add: case_prod_unfold)
  moreover note fold_headers_keep [OF 3]
  ultimately show ?thesis
    by (auto simp: Message_Bytes_def writer_Reply_def Prepare_def Let_def)
qed

lemma exec_message_None: "exec_message h wc getenv now msg l hp = None \<longleftrightarrow> d_ReplyTo msg = '''' \<and> \<not> xh_autoReply h"
  by (simp add: exec_message_def Let_def)

lemma fresh_not_attempted: "writer_inv w \<Longrightarrow> answer_id m = Some (ww_next w) \<Longrightarrow> LAttempt m None \<notin> set (ww_log w)"
  using next_id_fresh known_settled attempt_settled by blast

text \<open>Without middleware, what \<open>send\<close> does to the writer: nothing, or one message put.\<close>

lemma exec_send_cases:
  assumes send: "exec_send h wc getenv now msg l w = Value (r, w')" and inv: "writer_inv w" and mw: "wc_middleware wc = []"
  obtains (skipped) "r = None" "\<not> exec_publishes h msg l" "w' = w"
  | (put) d m where "r = Some (Inr d)" "exec_publishes h msg l" "writer_inv w'" "ww_log w' = ww_log w @ [LPut m]"
      "LAttempt m None \<notin> set (ww_log w)" "m_Done m = Some d" "carries wc msg l m" "ch_buf (ww_done w' d) = []"
proof (cases "exec_publishes h msg l")
  case False
  then have "l = [] \<and> \<not> xh_emptyPublish h \<or> exec_message h wc getenv now msg l (ww_heap w) = None"
    by (simp add: exec_publishes_def exec_message_None)
  with send have "r = None \<and> w' = w"
    by (auto simp: exec_send_def split: if_splits)
  with False skipped show ?thesis by simp
next
  case True
  then obtain out hp where out: "exec_message h wc getenv now msg l (ww_heap w) = Some (out, hp)"
    by (cases "exec_message h wc getenv now msg l (ww_heap w)") (auto simp: exec_publishes_def exec_message_None)
  let ?w = "w\<lparr>ww_heap := hp\<rparr>" and ?m = "done_qmsg out (msg_msg out) (ww_next w)"
  have pub: "writer_Publish wc out ?w = Value ((ww_next w, None), stream_put ?m (make_done ?w))"
    using mw by (cases w) (simp add: writer_Publish_cases make_done_def)
  then have "r = Some (Inr (ww_next w))" and w': "w' = stream_put ?m (make_done ?w)"
    using send True out by (auto simp: exec_send_def exec_publishes_def PublishWait_def)
  moreover have "writer_inv w'"
    unfolding w' by (rule writer_Publish_inv [OF pub]) (simp add: inv)
  moreover have "LAttempt ?m None \<notin> set (ww_log w)"
    using inv by (rule fresh_not_attempted) (simp add: answer_id_def done_qmsg_def)
  moreover have "ww_log w' = ww_log w @ [LPut ?m]"
    by (simp add: w' stream_put_def make_done_def)
  moreover have "ch_buf (ww_done w' (ww_next w)) = []"
    by (simp add: w' stream_put_def make_done_def)
  moreover have "carries wc msg l ?m"
    using exec_message_carries [OF out] by (simp add: carries_def done_qmsg_def)
  ultimately show ?thesis
    using True by (intro put [of "ww_next w" ?m]) (simp_all add: done_qmsg_def)
qed

section \<open>The invariant\<close>

definition delivered :: "writer_config \<Rightarrow> exec_handler \<Rightarrow> msg_in \<Rightarrow> bytes list \<Rightarrow> log_event list \<Rightarrow> bool" where
  "delivered wc h msg ls log \<longleftrightarrow>
     (\<exists>ms. list_all2 (carries wc msg) (filter (exec_publishes h msg) ls) ms \<and> subseq ms (published log))"

definition in_flight :: "writer_config \<Rightarrow> exec_handler \<Rightarrow> msg_in \<Rightarrow> bytes list \<Rightarrow> bytes \<Rightarrow> nat \<Rightarrow> log_event list \<Rightarrow> bool" where
  "in_flight wc h msg done l d log \<longleftrightarrow>
     (\<exists>l1 l2 m. log = l1 @ LPut m # l2 \<and> delivered wc h msg done l1 \<and> LAttempt m None \<notin> set l1 \<and>
        m_Done m = Some d \<and> carries wc msg l m)"

definition place_ok :: "writer_config \<Rightarrow> exec_handler \<Rightarrow> log_event list \<Rightarrow> exec_place \<Rightarrow> bool" where
  "place_ok wc h log pl =
     (case pl of
        XIdle \<Rightarrow> True
      | XSending msg pr done ls \<Rightarrow> exec_pieces h pr = Inr (done @ ls) \<and> delivered wc h msg done log
      | XWaiting msg pr done l d ls \<Rightarrow> exec_pieces h pr = Inr (done @ l # ls) \<and> exec_publishes h msg l \<and>
          in_flight wc h msg done l d log
      | XReturned msg pr r \<Rightarrow> r = None \<longrightarrow> (\<exists>ls. exec_pieces h pr = Inr ls \<and> delivered wc h msg ls log))"

lemma delivered_Nil [simp]: "delivered wc h msg [] log"
  by (auto simp: delivered_def)

lemma delivered_more: "delivered wc h msg ls log \<Longrightarrow> delivered wc h msg ls (log @ log')"
  unfolding delivered_def published_append by (blast intro: subseq_rev_drop_many)

lemma delivered_skip: "\<not> exec_publishes h msg l \<Longrightarrow> delivered wc h msg (ls @ [l]) log = delivered wc h msg ls log"
  by (simp add: delivered_def)

lemma in_flight_more: "in_flight wc h msg ls l d log \<Longrightarrow> in_flight wc h msg ls l d (log @ log')"
  unfolding in_flight_def by (metis append.assoc append_Cons)

lemma place_ok_more: "place_ok wc h log pl \<Longrightarrow> place_ok wc h (log @ log') pl"
  by (auto simp: place_ok_def dest: delivered_more in_flight_more split: exec_place.splits)

text \<open>A piece has been published once the channel it waits on is closed.\<close>

lemma in_flight_lands:
  assumes fly: "in_flight wc h msg done l d (ww_log w)" and pub: "exec_publishes h msg l"
    and inv: "writer_inv w" and closed: "ch_closed (ww_done w d)"
  shows "delivered wc h msg (done @ [l]) (ww_log w)"
proof -
  obtain l1 l2 m where log: "ww_log w = l1 @ LPut m # l2" and before: "delivered wc h msg done l1"
    and new: "LAttempt m None \<notin> set l1" and m: "m_Done m = Some d" "carries wc msg l m"
    using fly unfolding in_flight_def by blast
  have "LAttempt m None \<in> set (ww_log w)"
    using closed_iff_attempted [OF inv _ m(1)] closed log by simp
  with log new have "m \<in> set (published l2)" by (simp add: published_mem)
  moreover obtain ms where ms: "list_all2 (carries wc msg) (filter (exec_publishes h msg) done) ms" "subseq ms (published l1)"
    using before unfolding delivered_def by blast
  ultimately have "subseq (ms @ [m]) (published (ww_log w))"
    unfolding log by (simp add: list_emb_append_mono subseq_singleton_left)
  with ms(1) m(2) pub show ?thesis
    unfolding delivered_def by (intro exI [of _ "ms @ [m]"]) (simp add: list_all2_appendI)
qed

definition exec_inv :: "writer_config \<Rightarrow> exec_handler \<Rightarrow> exec_sys \<Rightarrow> bool" where
  "exec_inv wc h s \<longleftrightarrow> writer_inv (ws_world (xs_writer s)) \<and> place_ok wc h (ww_log (ws_world (xs_writer s))) (xs_place s) \<and>
     (case xs_place s of XWaiting msg pr done l d ls \<Rightarrow> ch_buf (ww_done (ws_world (xs_writer s)) d) = [] | _ \<Rightarrow> True)"

lemma exec_step_inv:
  assumes "exec_step b wc h cmd_of runs s t" and "exec_inv wc h s" and mw: "wc_middleware wc = []"
  shows "exec_inv wc h t"
  using assms(1,2)
proof (induction rule: exec_step.induct)
  case (exec_others s t)
  then show ?case
    using writer_step_inv [OF exec_others(1)] writer_step_log [OF exec_others(1)]
      writer_step_done_empty [OF exec_others(1)]
    by (auto simp: exec_inv_def intro: place_ok_more split: exec_place.split)
next
  case (exec_publish s msg pr ls' l ls getenv now r w)
  then have inv: "writer_inv (ws_world (xs_writer s))" and ok: "exec_pieces h pr = Inr (ls' @ l # ls)"
    "delivered wc h msg ls' (ww_log (ws_world (xs_writer s)))"
    by (simp_all add: exec_inv_def place_ok_def)
  from exec_publish(2) inv mw show ?case
  proof (cases rule: exec_send_cases)
    case skipped
    with inv ok show ?thesis by (simp add: exec_inv_def place_ok_def exec_sent_def delivered_skip)
  next
    case (put d m)
    then have "in_flight wc h msg ls' l d (ww_log w)"
      unfolding in_flight_def using ok(2) by blast
    with put ok show ?thesis by (simp add: exec_inv_def place_ok_def exec_sent_def)
  qed
next
  case (exec_wait s msg pr ls' l d ls r ctx)
  then have inv: "writer_inv (ws_world (xs_writer s))" and ok: "exec_pieces h pr = Inr (ls' @ l # ls)"
    "exec_publishes h msg l" "in_flight wc h msg ls' l d (ww_log (ws_world (xs_writer s)))"
    "ch_buf (ww_done (ws_world (xs_writer s)) d) = []"
    by (simp_all add: exec_inv_def place_ok_def)
  show ?case
  proof (cases r)
    case None
    with exec_wait(2) have "chan_recv (ww_done (ws_world (xs_writer s)) d) \<noteq> None"
      by (auto simp: publish_wait_results_def split: if_splits option.splits)
    with ok(4) have "ch_closed (ww_done (ws_world (xs_writer s)) d)"
      by (simp add: chan_recv_def split: if_splits)
    with in_flight_lands [OF ok(3,2) inv] None ok(1) inv show ?thesis
      by (simp add: exec_inv_def place_ok_def)
  qed (use inv in \<open>simp add: exec_inv_def place_ok_def\<close>)
qed (auto simp: exec_inv_def place_ok_def exec_Handle_def split: sum.splits)

lemma exec_start_inv: "exec_start s \<Longrightarrow> exec_inv wc h s"
  by (simp add: exec_start_def exec_inv_def place_ok_def writer_start_inv)

interpretation exec_runs: invariant_system exec_start "exec_step b wc h cmd_of runs"
    "\<lambda>s. wc_middleware wc = [] \<longrightarrow> exec_inv wc h s" for b wc h cmd_of runs
  by unfold_locales (auto intro: exec_start_inv exec_step_inv)

lemma exec_run_inv:
  "rtranclp (exec_step b wc h cmd_of runs) s0 s \<Longrightarrow> exec_start s0 \<Longrightarrow> wc_middleware wc = [] \<Longrightarrow> exec_inv wc h s"
  using exec_runs.reachable_inv by blast

lemma exec_publisher_plain: "exec_publisher cfg = Inr wc \<Longrightarrow> wc_middleware wc = []"
  by (auto simp: exec_publisher_def server_Publisher_def newWriter_def DefaultKey_def Let_def
      dest: writer_kind_middleware split: if_splits)

text \<open>To the writer a transaction is one of its clients.\<close>

lemma exec_send_run:
  assumes "exec_send h wc getenv now msg l (ws_world t) = Value (r, w)"
  shows "rtranclp (writer_step b wc) t (t\<lparr>ws_world := w\<rparr>)"
proof (cases "r = None")
  case True
  with assms have "w = ws_world t"
    by (auto simp: exec_send_def bind_outcome_Value_iff split: if_splits option.splits)
  then show ?thesis by simp
next
  case False
  with assms obtain out hp d e where
    "writer_Publish wc out ((ws_world t)\<lparr>ww_heap := hp\<rparr>) = Value ((d, e), w)"
    by (auto simp: exec_send_def PublishWait_def bind_outcome_Value_iff split: if_splits option.splits)
  then have "writer_step b wc (t\<lparr>ws_world := (ws_world t)\<lparr>ww_heap := hp\<rparr>\<rparr>) (t\<lparr>ws_world := w\<rparr>)"
    using writer_step.client_publish [of wc out "t\<lparr>ws_world := (ws_world t)\<lparr>ww_heap := hp\<rparr>\<rparr>" "(d, e)" w b] by simp
  with writer_step.client_headers [of b wc t hp] show ?thesis using run_end by (simp only: run_step)
qed

lemma exec_run_writer:
  "rtranclp (exec_step b wc h cmd_of runs) s t \<Longrightarrow> rtranclp (writer_step b wc) (xs_writer s) (xs_writer t)"
proof (induction rule: rtranclp_induct)
  case (step t u)
  from step(2) have "rtranclp (writer_step b wc) (xs_writer t) (xs_writer u)"
    by cases (auto intro: exec_send_run)
  with step(3) show ?case by (rule rtranclp_trans)
qed simp

section \<open>The property\<close>

text \<open>
  C37: When the transaction of \<open>amqp-exec\<close> returns nil, so that the delivery is acknowledged,
  \<open>ch.Publish\<close> returned nil for a message with each piece of the program's output, in the order
  the program wrote them: as a reply to the delivery's own queue and identifier where it asks for
  one, else with the configured exchange and key. The pieces are the whole output or, in multiline
  mode, the lines \<open>bufio.Scanner\<close> gave, which stops before a line of 64 KiB or more; without a
  destination nothing is published, and empty pieces only where that is allowed. This holds
  whatever the connection, the publisher's loop and other clients do meanwhile. (Nothing asks the
  broker to confirm a publishing.)
\<close>

theorem exec_nil_means_published:
  assumes "rtranclp (exec_step b wc (exec_handler_of cfg) cmd_of runs) s0 s" and "exec_start s0"
    and "exec_publisher cfg = Inr wc" and "xs_place s = XReturned msg pr None"
  shows "\<exists>ls ms. exec_pieces (exec_handler_of cfg) pr = Inr ls \<and>
    list_all2 (carries wc msg) (filter (exec_publishes (exec_handler_of cfg) msg) ls) ms \<and>
    subseq (map on_wire ms) (accepted (ww_history (ws_world (xs_writer s))))"
proof -
  obtain ls ms where "exec_pieces (exec_handler_of cfg) pr = Inr ls"
    "list_all2 (carries wc msg) (filter (exec_publishes (exec_handler_of cfg) msg) ls) ms"
    "subseq ms (published (ww_log (ws_world (xs_writer s))))"
    using exec_run_inv [OF assms(1,2) exec_publisher_plain [OF assms(3)]] assms(4)
    by (auto simp: exec_inv_def place_ok_def delivered_def)
  moreover have "log_matches (ws_world (xs_writer s))"
    using exec_run_writer [OF assms(1)] assms(2) by (auto simp: exec_start_def intro: reachable_log_matches)
  ultimately show ?thesis
    by (intro exI [of _ ls] exI [of _ ms]) (simp add: log_matches_def subseq_map)
qed

section \<open>A run used as example\<close>

lemma lift_writer_run:
  "rtranclp (writer_step b wc) t u \<Longrightarrow> xs_writer s = t \<Longrightarrow> rtranclp (exec_step b wc h cmd_of runs) s (s\<lparr>xs_writer := u\<rparr>)"
proof (induction rule: rtranclp_induct)
  case (step u v)
  then have "exec_step b wc h cmd_of runs (s\<lparr>xs_writer := u\<rparr>) ((s\<lparr>xs_writer := u\<rparr>)\<lparr>xs_writer := v\<rparr>)"
    by (intro exec_step.exec_others) simp_all
  with step show ?case by simp
next
  case base
  then show ?case by (cases s) simp
qed

definition demo_process :: process where
  "demo_process = \<lparr>pr_start = None, pr_exit = None, pr_stdout = ''body''\<rparr>"

definition demo_publisher :: writer_config where
  "demo_publisher = DefaultKey ''out'' newWriter"

definition demo_online :: writer_sys where
  "demo_online = demo_start\<lparr>ws_pc := AtTop False\<rparr>"

text \<open>\<open>cat\<close> is run for a delivery that asks for a reply, and what it writes is the reply.\<close>

theorem exec_nil_means_published_witness:
  "\<exists>s m. rtranclp (exec_step ok_broker demo_publisher (exec_handler_of demo_options)
        (makeCmd (\<lambda>_. '''') [] demo_options) (\<lambda>cmd pr. cmd_Path cmd = ''/bin/cat'' \<and> pr = demo_process))
      \<lparr>xs_writer = demo_start, xs_place = XIdle\<rparr> s \<and>
    xs_place s = XReturned demo_delivery demo_process None \<and>
    p_Body (m_Msg m) = ''body'' \<and> m_Key m = ''r'' \<and> on_wire m \<in> set (accepted (ww_history (ws_world (xs_writer s))))"
proof -
  let ?h = "exec_handler_of demo_options" and ?cmd = "makeCmd (\<lambda>_. '''') [] demo_options"
  let ?runs = "\<lambda>cmd pr. cmd_Path cmd = ''/bin/cat'' \<and> pr = demo_process"
  let ?step = "exec_step ok_broker demo_publisher ?h ?cmd ?runs"
  let ?s0 = "\<lparr>xs_writer = demo_start, xs_place = XIdle\<rparr>"
  have start: "exec_start ?s0" by (simp add: exec_start_def)
  have pub: "exec_publisher demo_options = Inr demo_publisher"
    by (simp add: exec_publisher_def demo_options_def demo_publisher_def server_Publisher_def)
  have plain: "wc_middleware demo_publisher = []" using pub by (rule exec_publisher_plain)
  have pieces: "exec_pieces ?h demo_process = Inr [''body'']"
    by (simp add: exec_pieces_def exec_handler_of_def demo_options_def runMultiLineApplication_def demo_process_def
        scan_lines.simps max_token_def drop_cr_def)
  have sends: "exec_publishes ?h demo_delivery ''body''"
    by (simp add: exec_publishes_def exec_handler_of_def demo_options_def)
  have online: "writer_step ok_broker demo_publisher demo_start demo_online"
    using writer_step.connected [of demo_start ok_broker demo_publisher "[]"]
    by (simp add: demo_start_def demo_online_def demo_world_def pub_setup_def guarded_def pure_amqp_def
        demo_publisher_def DefaultKey_def newWriter_def)
  let ?s1 = "?s0\<lparr>xs_writer := demo_online\<rparr>"
  have "?step ?s0 ?s1" by (rule exec_step.exec_others) (simp add: online)
  then have run1: "rtranclp ?step ?s0 ?s1" by blast
  let ?s2 = "?s1\<lparr>xs_place := XSending demo_delivery demo_process [] [''body'']\<rparr>"
  have "?step ?s1 (?s1\<lparr>xs_place := exec_Handle ?h demo_delivery demo_process\<rparr>)"
    by (rule exec_step.exec_begin) (simp_all add: makeCmd_def demo_options_def)
  then have "?step ?s1 ?s2" by (simp add: exec_Handle_def pieces)
  with run1 have run2: "rtranclp ?step ?s0 ?s2" by (rule rtranclp.rtrancl_into_rtrancl)
  have inv2: "exec_inv demo_publisher ?h ?s2" by (rule exec_run_inv [OF run2 start plain])
  obtain r w where send: "exec_send ?h demo_publisher (\<lambda>_. '''') ZeroTime demo_delivery ''body'' demo_world = Value (r, w)"
    by (simp add: exec_send_def exec_message_def exec_handler_of_def demo_options_def PublishWait_def writer_Publish_cases
        plain demo_delivery_def Let_def)
  then obtain d m where put: "r = Some (Inr d)" "writer_inv w" "ww_log w = [LPut m]" "m_Done m = Some d"
    "carries demo_publisher demo_delivery ''body'' m" "ch_buf (ww_done w d) = []"
    using sends plain inv2
    by (elim exec_send_cases) (auto simp: exec_inv_def demo_online_def demo_start_def demo_world_def)
  let ?w3 = "demo_online\<lparr>ws_world := w\<rparr>"
  let ?s3 = "\<lparr>xs_writer = ?w3, xs_place = XWaiting demo_delivery demo_process [] ''body'' d []\<rparr>"
  have "?step ?s2 ?s3"
    using exec_step.exec_publish [of ?s2 demo_delivery demo_process "[]" "''body''" "[]" ?h demo_publisher "\<lambda>_. ''''" ZeroTime r w ok_broker ?cmd ?runs]
      send put(1) by (simp add: demo_online_def demo_start_def exec_sent_def)
  with run2 have run3: "rtranclp ?step ?s0 ?s3" by (rule rtranclp.rtrancl_into_rtrancl)
  have "queue_items (ww_stream w) = [m]"
    using writer_invD(2) [OF put(2)] put(3) by (simp add: known_def)
  then obtain u where u: "rtranclp (writer_step ok_broker demo_publisher) ?w3 u" "ww_log (ws_world u) = ww_log w @ [LAttempt m None]"
    using publisher_round_step [of ?w3 ok_broker False m "[]" demo_publisher] put(2)
    by (auto simp: demo_online_def ok_broker_def)
  let ?s4 = "?s3\<lparr>xs_writer := u\<rparr>"
  have run4: "rtranclp ?step ?s0 ?s4" using run3 lift_writer_run [OF u(1)] by (rule rtranclp_trans) simp
  have inv4: "exec_inv demo_publisher ?h ?s4" by (rule exec_run_inv [OF run4 start plain])
  then have "ch_closed (ww_done (ws_world u) d)"
    using closed_iff_attempted [of "ws_world u" m d] u(2) put(3,4) by (simp add: exec_inv_def)
  then have "None \<in> set (publish_wait_results (ws_world u) d None)"
    using inv4 by (simp add: exec_inv_def publish_wait_results_def chan_recv_def)
  then have "?step ?s4 (?s4\<lparr>xs_place := XSending demo_delivery demo_process [''body''] []\<rparr>)"
    using exec_step.exec_wait [of ?s4 demo_delivery demo_process "[]" "''body''" d "[]" None None] by simp
  moreover have "?step (?s4\<lparr>xs_place := XSending demo_delivery demo_process [''body''] []\<rparr>)
      (?s4\<lparr>xs_place := XReturned demo_delivery demo_process None\<rparr>)"
    using exec_step.exec_end [of "?s4\<lparr>xs_place := XSending demo_delivery demo_process [''body''] []\<rparr>"] by simp
  ultimately have run5: "rtranclp ?step ?s0 (?s4\<lparr>xs_place := XReturned demo_delivery demo_process None\<rparr>)"
    using run4 by (meson rtranclp.rtrancl_into_rtrancl)
  obtain m' where "carries demo_publisher demo_delivery ''body'' m'" "on_wire m' \<in> set (accepted (ww_history (ws_world u)))"
    using exec_nil_means_published [OF run5 start pub, of demo_delivery demo_process] pieces sends
    by (auto simp: list_all2_Cons1 subseq_singleton_left)
  with run5 show ?thesis
    by (intro exI [of _ "?s4\<lparr>xs_place := XReturned demo_delivery demo_process None\<rparr>"] exI [of _ m'])
      (simp add: carries_def published_mem demo_delivery_def demo_publisher_def DefaultKey_def)
qed

end
