(* ===== verification/Recv_Tool.thy ===== *)
theory Recv_Tool
  imports Command_Tools
begin

text \<open>
  \<open>cmd/amqp-recv/main.go\<close>: print one message and stop. The handlers for the output formats, the
  handler that lets only one delivery through, and the set-up. Writing to the standard output
  and the library renderings (a dump, indented JSON, a template) are arguments.
\<close>

section \<open>Handlers\<close>

text \<open>A handler of deliveries that may panic, with what it writes.\<close>

type_synonym print_handler = "msg_in \<Rightarrow> bytes outcome"

definition dumpHandler_Handle :: "(msg_in \<Rightarrow> bytes) \<Rightarrow> print_handler" where
  "dumpHandler_Handle dump msg = Value (dump msg)"

definition jsonHandler_Handle :: "(msg_in \<Rightarrow> go_error + bytes) \<Rightarrow> print_handler" where
  "jsonHandler_Handle encode msg = (case encode msg of Inl e \<Rightarrow> Panic (error_text e) | Inr out \<Rightarrow> Value out)"

definition plainHandler_Handle :: "(bytes \<Rightarrow> go_error option) \<Rightarrow> print_handler" where
  "plainHandler_Handle write msg =
     (case write (d_Body msg) of Some e \<Rightarrow> Panic (error_text e) | None \<Rightarrow> Value (d_Body msg))"

definition templateHandler_Handle :: "('t \<Rightarrow> msg_in \<Rightarrow> go_error + bytes) \<Rightarrow> 't \<Rightarrow> print_handler" where
  "templateHandler_Handle execute t msg = (case execute t msg of Inl e \<Rightarrow> Panic (error_text e) | Inr out \<Rightarrow> Value out)"

record limited =
  lm_Num :: int
  lm_idx :: int

text \<open>The result, what the inner handler writes, and the counter.\<close>

definition limited_Handle :: "print_handler \<Rightarrow> msg_in \<Rightarrow> limited \<Rightarrow> (go_error option \<times> bytes \<times> limited) outcome" where
  "limited_Handle handler msg dh =
     (if lm_Num dh \<le> lm_idx dh then Value (Some (Err ''limit reached''), [], dh)
      else bind_outcome (handler msg) (\<lambda>out. Value (None, out, dh\<lparr>lm_idx := lm_idx dh + 1\<rparr>)))"

section \<open>Options and set-up\<close>

record recv_config =
  vc_URLs :: "string list"
  vc_Exchange :: string
  vc_ExchangeType :: string
  vc_Verify :: string
  vc_Queue :: string
  vc_Lazy :: bool
  vc_OutType :: string
  vc_RoutingKey :: string
  vc_Interval :: "64 word"
  vc_Timeout :: "64 word"
  vc_Quiet :: bool
  vc_Version :: bool

definition recv_main :: "recv_config \<Rightarrow> bool \<Rightarrow> go_error option \<Rightarrow> nat" where
  "recv_main cfg = command_status (vc_Version cfg)"

definition recv_broker :: "recv_config \<Rightarrow> broker_config" where
  "recv_broker cfg = command_broker (vc_URLs cfg) (vc_Interval cfg) (vc_Timeout cfg)"

definition recv_sink :: "validate \<Rightarrow> recv_config \<Rightarrow> sink_config outcome option" where
  "recv_sink validate cfg = validate_lazy validate (vc_Verify cfg) (vc_Lazy cfg) (server_Sink (recv_broker cfg) (vc_Queue cfg))"

text \<open>
  The handler for the chosen format; \<open>parse\<close> makes a template of what was read from the
  standard input.
\<close>

definition recv_handler ::
    "(msg_in \<Rightarrow> bytes) \<Rightarrow> (msg_in \<Rightarrow> go_error + bytes) \<Rightarrow> (bytes \<Rightarrow> go_error option) \<Rightarrow> ('t \<Rightarrow> msg_in \<Rightarrow> go_error + bytes) \<Rightarrow>
     (bytes \<Rightarrow> go_error + 't) \<Rightarrow> go_error + bytes \<Rightarrow> recv_config \<Rightarrow> (go_error + print_handler) outcome" where
  "recv_handler dump encode write execute parse stdin cfg =
     (if vc_OutType cfg = ''dump'' then Value (Inr (dumpHandler_Handle dump))
      else if vc_OutType cfg = ''json'' then Value (Inr (jsonHandler_Handle encode))
      else if vc_OutType cfg = ''body'' \<or> vc_OutType cfg = ''plain'' then Value (Inr (plainHandler_Handle write))
      else if vc_OutType cfg = ''template'' then
        Value (case stdin of
            Inl e \<Rightarrow> Inl e
          | Inr text \<Rightarrow> (case parse text of Inl e \<Rightarrow> Inl e | Inr t \<Rightarrow> Inr (templateHandler_Handle execute t)))
      else Panic ''unknown output format'')"

definition recv_exchange :: "recv_config \<Rightarrow> sink_config \<Rightarrow> go_error + sink_config" where
  "recv_exchange cfg snk =
     (if vc_Exchange cfg \<noteq> '''' then
        bind_kind (vc_ExchangeType cfg) (vc_Exchange cfg) (if vc_RoutingKey cfg \<noteq> '''' then [vc_RoutingKey cfg] else []) snk
      else Inr snk)"

text \<open>
  \<open>run\<close>: its error, or the handler that prints with the one sink it registers; \<open>handler\<close> is
  the result of \<open>recv_handler\<close>.
\<close>

definition recv_run ::
    "validate \<Rightarrow> (go_error + print_handler) outcome \<Rightarrow> recv_config \<Rightarrow> (go_error + print_handler \<times> state_handler list) outcome option" where
  "recv_run validate handler cfg = map_option (\<lambda>r. bind_outcome r (\<lambda>snk. bind_outcome handler (\<lambda>hd. Value (
     case hd of
       Inl e \<Rightarrow> Inl e
     | Inr f \<Rightarrow> (case recv_exchange cfg snk of
           Inl e \<Rightarrow> Inl e
         | Inr snk1 \<Rightarrow> Inr (f, sink_TransactFunc snk1 [])))))) (recv_sink validate cfg)"

section \<open>The handler inside the sink\<close>

text \<open>
  The counter is the number of times the inner handler printed, so the history holds it. The
  handler around the transaction is the one of \<open>TransactFunc\<close>; what was printed is recorded just
  before the transaction's result. A panic ends the process: nothing is acknowledged and the loop
  does not go on. (No handler here blocks; the branch is for completeness.)
\<close>

definition printed :: "history \<Rightarrow> bytes list" where
  "printed h = concat (map (\<lambda>e. case e of Printed out \<Rightarrow> [out] | _ \<Rightarrow> []) h)"

definition recv_transact :: "broker \<Rightarrow> print_handler \<Rightarrow> int \<Rightarrow> msg_in \<Rightarrow> unit amqp" where
  "recv_transact b handler num d h =
     (case limited_Handle handler d \<lparr>lm_Num = num, lm_idx = int (length (printed h))\<rparr> of
        Value (r, out, dh) \<Rightarrow>
          transact_handler b None (\<lambda>_ _. r) d (if lm_idx dh = int (length (printed h)) then h else h @ [Printed out])
      | Panic s \<Rightarrow> (Inl (Err s), h @ [Crashed s])
      | Stuck \<Rightarrow> (Inl (Err ''blocked''), h))"

lemma printed_simps [simp]:
  "printed [] = []" "printed (h @ h') = printed h @ printed h'"
  "printed (e # h) = (case e of Printed out \<Rightarrow> [out] | _ \<Rightarrow> []) @ printed h"
  by (simp_all add: printed_def)

lemma recv_transact_cases: "recv_transact b handler num d h =
    (if num \<le> int (length (printed h)) then transact_handler b None (\<lambda>_ _. Some (Err ''limit reached'')) d h
     else case handler d of
        Value out \<Rightarrow> transact_handler b None (\<lambda>_ _. None) d (h @ [Printed out])
      | Panic s \<Rightarrow> (Inl (Err s), h @ [Crashed s])
      | Stuck \<Rightarrow> (Inl (Err ''blocked''), h))"
  by (cases "handler d") (simp_all add: recv_transact_def limited_Handle_def)

section \<open>One message and no more\<close>

text \<open>The deliveries an acknowledgement was asked for, and those given back.\<close>

definition acked :: "history \<Rightarrow> nat list" where
  "acked h = concat (map (\<lambda>e. case e of Did (Ack t _) _ \<Rightarrow> [t] | _ \<Rightarrow> []) h)"

lemma acked_simps [simp]:
  "acked [] = []" "acked (h @ h') = acked h @ acked h'"
  "acked (e # h) = (case e of Did (Ack t _) _ \<Rightarrow> [t] | _ \<Rightarrow> []) @ acked h"
  by (simp_all add: acked_def)

definition given_back :: "history \<Rightarrow> nat list" where
  "given_back h = concat (map (\<lambda>e. case e of Did (Nack t _ True) _ \<Rightarrow> [t] | _ \<Rightarrow> []) h)"

lemma given_back_simps [simp]:
  "given_back [] = []" "given_back (h @ h') = given_back h @ given_back h'"
  "given_back (e # h) = (case e of Did (Nack t _ True) _ \<Rightarrow> [t] | _ \<Rightarrow> []) @ given_back h"
  by (simp_all add: given_back_def)

definition reached :: "history \<Rightarrow> msg_in list" where
  "reached h = concat (map (\<lambda>e. case e of RanHandler d _ \<Rightarrow> [d] | _ \<Rightarrow> []) h)"

lemma reached_simps [simp]:
  "reached [] = []" "reached (h @ h') = reached h @ reached h'"
  "reached (e # h) = (case e of RanHandler d _ \<Rightarrow> [d] | _ \<Rightarrow> []) @ reached h"
  by (simp_all add: reached_def)

definition first_only :: "nat \<Rightarrow> print_handler \<Rightarrow> history \<Rightarrow> bool" where
  "first_only n handler h \<longleftrightarrow> map handler (take n (reached h)) = map Value (printed h) \<and>
     acked h = map d_DeliveryTag (take n (reached h)) \<and> given_back h = map d_DeliveryTag (drop n (reached h))"

text \<open>Events that are none of these change nothing.\<close>

definition beside :: "history \<Rightarrow> bool" where
  "beside es \<longleftrightarrow> printed es = [] \<and> reached es = [] \<and> acked es = [] \<and> given_back es = []"

lemma first_only_beside: "beside es \<Longrightarrow> first_only n f (h @ es) = first_only n f h"
  by (simp add: beside_def first_only_def)

lemma first_only_transaction:
  assumes "first_only n f h"
  shows "first_only n f (snd (recv_transact b f (int n) d h))"
proof -
  have "length (printed h) = min n (length (reached h))"
    using assms unfolding first_only_def by (metis length_map length_take min.commute)
  then have full: "int n \<le> int (length (printed h)) \<longleftrightarrow> n \<le> length (reached h)" by auto
  show ?thesis
  proof (cases "n \<le> length (reached h)")
    case True
    then show ?thesis
      using assms full
      by (simp add: recv_transact_cases transact_handler_def ignore_error_call Let_def) (simp add: first_only_def)
  next
    case False
    then show ?thesis
      using assms full
      by (cases "f d")
        (simp_all add: recv_transact_cases transact_handler_def ignore_error_call first_only_def Let_def)
  qed
qed

lemma beside_verdict: "\<exists>es. verdict_events s d h = h @ es \<and> beside es"
  by (simp add: verdict_events_def warning_asked_def Let_def beside_def)

lemma beside_filters: "\<exists>es. snd (run_filters b i fs d h) = h @ es \<and> beside es"
proof (induction fs arbitrary: i d h)
  case (Cons f fs)
  obtain ok d' where f: "f h d = (ok, d')" by (meson surj_pair)
  show ?case
  proof (cases ok)
    case True
    obtain es where "snd (run_filters b (Suc i) fs d' (h @ [Filtered i True])) = (h @ [Filtered i True]) @ es" "beside es"
      using Cons.IH by blast
    with f True show ?thesis by (intro exI [of _ "Filtered i True # es"]) (auto simp: beside_def)
  next
    case False
    with f show ?thesis by (auto simp: beside_def amqp_defs Let_def split: sum.split)
  qed
qed (simp add: beside_def)

lemma first_only_message:
  assumes "first_only n f h"
  shows "first_only n f (snd (sink_message b s (recv_transact b f (int n)) d h))"
proof -
    obtain es where es: "verdict_events s d h = h @ es" "beside es" using beside_verdict by blast
  then have 1: "first_only n f (verdict_events s d h)" using assms(1) by (simp add: first_only_beside)
  show ?thesis
  proof (cases "sink_verdict s d h")
    case False
    have "beside [Did (Nack (d_DeliveryTag d) False False) r]" for r by (simp add: beside_def)
    with 1 False show ?thesis by (simp add: sink_message_verdict call_unit_snd first_only_beside)
  next
    case True
    obtain r h2 where run: "run_filters b 0 (sk_middleware s) (d\<lparr>d_RoutingKey := restoreRoutingKey d\<rparr>) (verdict_events s d h) = (r, h2)"
      by (meson surj_pair)
    then obtain es2 where "h2 = verdict_events s d h @ es2" "beside es2"
      using beside_filters by (metis snd_conv)
    with 1 have 2: "first_only n f h2" by (simp add: first_only_beside)
    show ?thesis
      using True run 2 first_only_transaction [OF 2]
      by (auto simp: sink_message_verdict and_then_def pure_amqp_def split: sum.split option.split)
  qed
qed

lemma first_only_loop: "first_only n f h \<Longrightarrow>
    first_only n f (snd (sink_loop b s (recv_transact b f (int n)) evs h))"
proof (induction evs arbitrary: h rule: list.induct)
  case (Cons ev evs)
  show ?case
  proof (cases ev)
    case (StreamMsg d)
    obtain r h1 where run: "sink_message b s (recv_transact b f (int n)) d h = (r, h1)"
      by (meson surj_pair)
    then have "first_only n f h1" using first_only_message [OF Cons.prems, of b s d] by simp
    with StreamMsg run Cons.IH show ?thesis by (cases r) (simp_all add: and_then_def)
  qed (use Cons.prems in \<open>simp_all add: pure_amqp_def fail_amqp_def\<close>)
qed (simp add: pure_amqp_def)

text \<open>
  C39: \<open>amqp-recv\<close> takes one message: of the deliveries that get through the limits and filters of
  its sink and for which its transaction returned, exactly the first is printed, in the form the
  handler gives it, and acknowledged, and every later one, however many come in before the command
  has stopped, is given back to the queue. If printing panics the command is gone, and that
  delivery is neither acknowledged nor given back by it.
\<close>

theorem recv_takes_first:
  assumes "h = snd (sink_loop b s (recv_transact b handler 1) evs [])"
  shows "map handler (take 1 (reached h)) = map Value (printed h) \<and>
    acked h = map d_DeliveryTag (take 1 (reached h)) \<and> given_back h = map d_DeliveryTag (drop 1 (reached h))"
proof -
  have "first_only 1 handler []" by (simp add: first_only_def)
  from first_only_loop [OF this, of b s evs] assms show ?thesis by (simp add: first_only_def)
qed

theorem recv_takes_first_witness:
  "\<exists>h. h = snd (sink_loop named_broker (ManualAck (server_Sink (Broker []) ''q''))
        (recv_transact named_broker (plainHandler_Handle (\<lambda>_. None)) 1)
        [StreamMsg demo_delivery, StreamMsg (demo_delivery\<lparr>d_DeliveryTag := 2\<rparr>)] []) \<and>
    length (reached h) = 2 \<and> printed h = [''body''] \<and> acked h = [1] \<and> given_back h = [2]"
proof -
  define h where "h = snd (sink_loop named_broker (ManualAck (server_Sink (Broker []) ''q''))
        (recv_transact named_broker (plainHandler_Handle (\<lambda>_. None)) 1)
        [StreamMsg demo_delivery, StreamMsg (demo_delivery\<lparr>d_DeliveryTag := 2\<rparr>)] [])"
  have "reached h = [demo_delivery, demo_delivery\<lparr>d_DeliveryTag := 2\<rparr>]"
    by (simp add: h_def and_then_def sink_message_verdict sink_verdict_def retry_warned_def retry_expired_def verdict_events_def
        warning_asked_def ManualAck_def server_Sink_def Broker_def builder_simps getRedelivery_def restoreRoutingKey_def
        transact_handler_def ignore_error_call recv_transact_cases plainHandler_Handle_def
        pure_amqp_def demo_delivery_def Let_def)
  with recv_takes_first [OF h_def]
  have "length (reached h) = 2 \<and> printed h = [''body''] \<and> acked h = [1] \<and> given_back h = [2]"
    by (auto simp: plainHandler_Handle_def demo_delivery_def)
  with h_def show ?thesis by blast
qed

end
