(* ===== verification/Send_Tool.thy ===== *)
theory Send_Tool
  imports Recv_Tool
begin

text \<open>
  \<open>cmd/amqp-send/main.go\<close>: publish what comes in on the standard input as one message, signed if
  asked to. With \<open>Recv_Tool\<close>, the way of a message from one command to the other.
\<close>

section \<open>Options and set-up\<close>

record send_config =
  so_URLs :: "string list"
  so_Exchange :: string
  so_ExchangeType :: string
  so_Sign :: string
  so_MessageID :: string
  so_ReplyTo :: string
  so_CorrelationID :: string
  so_Headers :: "string gomap"
  so_ContentType :: string
  so_TTL :: "64 word"
  so_RoutingKey :: string
  so_Interval :: "64 word"
  so_Timeout :: "64 word"
  so_Quiet :: bool
  so_Version :: bool

definition send_main :: "send_config \<Rightarrow> bool \<Rightarrow> go_error option \<Rightarrow> nat" where
  "send_main cfg = command_status (so_Version cfg)"

definition send_broker :: "send_config \<Rightarrow> broker_config" where
  "send_broker cfg = command_broker (so_URLs cfg) (so_Interval cfg) (so_Timeout cfg)"

text \<open>\<open>sign_file\<close> is \<open>WriterConfig.Sign\<close> on a key file (\<open>writer_Sign\<close>), which may panic.\<close>

definition send_writer ::
    "(string \<Rightarrow> writer_config \<Rightarrow> writer_config outcome option) \<Rightarrow> send_config \<Rightarrow> (go_error + writer_config) outcome option" where
  "send_writer sign_file cfg =
     (case (if so_Exchange cfg \<noteq> '''' then writer_kind (so_ExchangeType cfg) (so_Exchange cfg) (server_Publisher (send_broker cfg))
            else Inr (server_Publisher (send_broker cfg))) of
        Inl e \<Rightarrow> Some (Value (Inl e))
      | Inr wc \<Rightarrow> (let keyed = DefaultKey (so_RoutingKey cfg) wc in
          map_option (\<lambda>r. bind_outcome r (\<lambda>wc1. Value (Inr wc1)))
            (if so_Sign cfg \<noteq> '''' then sign_file (so_Sign cfg) keyed else Some (Value keyed))))"

text \<open>What the \<open>select\<close> on the input takes.\<close>

datatype stdin_event = StdinRead bytes | StdinFailed | InputCtxDone go_error

fun send_input :: "stdin_event \<Rightarrow> go_error + bytes" where
  "send_input (StdinRead inData) = Inr inData"
| "send_input StdinFailed = Inl (Err ''read STDIN'')"
| "send_input (InputCtxDone e) = Inl e"

text \<open>\<open>uuid\<close> is what \<open>uuid.New()\<close> returns.\<close>

definition send_id :: "send_config \<Rightarrow> string \<Rightarrow> string" where
  "send_id cfg uuid = (if so_MessageID cfg = '''' then uuid else so_MessageID cfg)"

definition send_message :: "send_config \<Rightarrow> writer_config \<Rightarrow> string \<Rightarrow> stamp \<Rightarrow> bytes \<Rightarrow> heap \<Rightarrow> message \<times> heap" where
  "send_message cfg wc uuid now inData hp =
     (case fold (\<lambda>(k, v). Message_Header k (VString v)) (so_Headers cfg)
         (Message_TTL (so_TTL cfg) (Message_ID (send_id cfg uuid) (Message_Bytes inData (Prepare wc now))), hp) of
        (msg, hp') \<Rightarrow> (Message_ReplyTo (so_CorrelationID cfg) (so_ReplyTo cfg) (Message_Type (so_ContentType cfg) msg), hp'))"

text \<open>
  \<open>run\<close>: its error and the handlers registered with the server. The result of \<open>PublishWait\<close> on
  the message, \<open>published\<close>, is only logged.
\<close>

definition send_run ::
    "(string \<Rightarrow> writer_config \<Rightarrow> writer_config outcome option) \<Rightarrow> send_config \<Rightarrow> stdin_event \<Rightarrow> go_error option \<Rightarrow>
     (go_error option \<times> state_handler list) outcome option" where
  "send_run sign_file cfg stdin published = map_option (\<lambda>r. bind_outcome r (\<lambda>wr. Value (
     case wr of
       Inl e \<Rightarrow> (Some e, [])
     | Inr wc \<Rightarrow> (case send_input stdin of
           Inl e \<Rightarrow> Some e
         | Inr inData \<Rightarrow> (case published of None \<Rightarrow> None | Some e \<Rightarrow> None), writer_Create wc [])))) (send_writer sign_file cfg)"

text \<open>So the status is 0 also where the message was not published.\<close>

lemma send_status_ignores_publishing:
  "send_run sign_file cfg stdin published = send_run sign_file cfg stdin None"
  by (simp add: send_run_def split: option.split sum.split)

section \<open>What is sent\<close>

lemma Message_Header_fields:
  "Message_Header k v (m, hp) = (m', hp') \<Longrightarrow>
   \<exists>a. m' = m\<lparr>msg_msg := (msg_msg m)\<lparr>p_Headers := a\<rparr>\<rparr> \<and>
     (\<forall>k'. map_get (p_Headers (wire hp' (msg_msg m'))) k' = (if k' = k then Some v else map_get (p_Headers (wire hp (msg_msg m))) k'))"
  by (auto simp: Message_Header_def header_put_def split: option.splits intro: exI [of _ "p_Headers (msg_msg m)"])

lemma fold_headers:
  "fold (\<lambda>(k, v). Message_Header k (VString v)) kvs (m, hp) = (m', hp') \<Longrightarrow>
   \<exists>a. m' = m\<lparr>msg_msg := (msg_msg m)\<lparr>p_Headers := a\<rparr>\<rparr> \<and>
     (\<forall>k. map_get (p_Headers (wire hp' (msg_msg m'))) k =
        (case map_of (rev kvs) k of Some v \<Rightarrow> Some (VString v) | None \<Rightarrow> map_get (p_Headers (wire hp (msg_msg m))) k))"
proof (induction kvs arbitrary: m hp)
  case (Cons kv kvs)
  obtain k v where kv: "kv = (k, v)" by (cases kv)
  obtain m1 hp1 where 1: "Message_Header k (VString v) (m, hp) = (m1, hp1)" by (meson surj_pair)
  with Cons.prems kv have 2: "fold (\<lambda>(k, v). Message_Header k (VString v)) kvs (m1, hp1) = (m', hp')" by simp
  from Cons.IH [OF 2] Message_Header_fields [OF 1] kv show ?case
    by (auto simp: map_add_def split: option.split)
next
  case Nil
  then have "m = m'" "hp = hp'" by simp_all
  then show ?case by (intro exI [of _ "p_Headers (msg_msg m')"]) simp
qed

text \<open>
  What \<open>amqp-send\<close> publishes: the input as body, the given identifier or a new one, the
  configured headers as strings, the content type, the correlation and the reply queue, the
  time to live in milliseconds where one is set, to the configured exchange and key.
\<close>

lemma sent_fields:
  assumes "send_message cfg wc uuid now inData hp = (m, hp')"
  shows "p_Body (msg_msg m) = inData \<and> p_MessageId (msg_msg m) = send_id cfg uuid \<and>
    p_ContentType (msg_msg m) = so_ContentType cfg \<and> p_CorrelationId (msg_msg m) = so_CorrelationID cfg \<and>
    p_ReplyTo (msg_msg m) = so_ReplyTo cfg \<and> p_DeliveryMode (msg_msg m) = persistent \<and>
    p_Expiration (msg_msg m) = (if so_TTL cfg = 0 then '''' else format_int (duration_ms (so_TTL cfg))) \<and>
    msg_exchange m = wc_exchange wc \<and> msg_key m = wc_topic wc \<and>
    (\<forall>k. map_get (p_Headers (wire hp' (msg_msg m))) k = map_option VString (map_of (rev (so_Headers cfg)) k))"
proof -
  let ?m0 = "Message_TTL (so_TTL cfg) (Message_ID (send_id cfg uuid) (Message_Bytes inData (Prepare wc now)))"
  obtain m1 hp1 where 1: "fold (\<lambda>(k, v). Message_Header k (VString v)) (so_Headers cfg) (?m0, hp) = (m1, hp1)"
    by (meson surj_pair)
  with assms have m: "m = Message_ReplyTo (so_CorrelationID cfg) (so_ReplyTo cfg) (Message_Type (so_ContentType cfg) m1)"
    and hp: "hp' = hp1"
    by (simp_all add: send_message_def)
  from fold_headers [OF 1] show ?thesis
    unfolding m hp
    by (auto simp: Message_ReplyTo_def Message_Type_def Message_TTL_def Message_ID_def Message_Bytes_def Prepare_def
        zero_publishing_def split: option.split)
qed

section \<open>From amqp-send to amqp-recv\<close>

lemma send_writer_signs:
  assumes "send_writer (writer_Sign read pem parse sha512 rsa_sign) cfg = Some (Value (Inr wc))"
    and "so_Sign cfg \<noteq> ''''" and "loadPrivateKeyFile read pem parse (so_Sign cfg) = Some (Inr key)"
  shows "wc_middleware wc = [] @ [signer_Handle sha512 rsa_sign \<lparr>ms_header = DefaultSignatureHeader, ms_key = Some key\<rparr>]"
proof -
  obtain wc0 where wc0: "wc_middleware wc0 = []"
    "writer_Sign read pem parse sha512 rsa_sign (so_Sign cfg) (DefaultKey (so_RoutingKey cfg) wc0) = Some (Value wc)"
  proof (rule that)
    let ?wc0 = "case (if so_Exchange cfg \<noteq> '''' then writer_kind (so_ExchangeType cfg) (so_Exchange cfg) (server_Publisher (send_broker cfg))
            else Inr (server_Publisher (send_broker cfg))) of Inr wc \<Rightarrow> wc | Inl e \<Rightarrow> newWriter"
    show "wc_middleware ?wc0 = []"
      using writer_kind_middleware [of "so_ExchangeType cfg" "so_Exchange cfg" "server_Publisher (send_broker cfg)"]
      by (auto simp: server_Publisher_def newWriter_def split: sum.split)
    show "writer_Sign read pem parse sha512 rsa_sign (so_Sign cfg) (DefaultKey (so_RoutingKey cfg) ?wc0) = Some (Value wc)"
      using assms(1,2) by (auto simp: send_writer_def bind_outcome_Value_iff Let_def split: sum.splits if_splits)
  qed
  with assms(3) show ?thesis
    by (auto simp: writer_Sign_def NewSignerFromFile_def signer_of_def writer_Use_def DefaultKey_def)
qed

lemma recv_sink_validates:
  assumes "recv_sink (sink_Validate read pem parse check) cfg = Some (Value snk)"
    and "vc_Verify cfg \<noteq> ''''" and "loadCertificateFromFile read pem parse (vc_Verify cfg) = Some (Inr cert)"
  shows "sk_middleware snk = [validator_filter check DefaultSignatureHeader cert] \<and>
    sk_tooMuch snk = None \<and> sk_retries snk = 10"
  using assms
  by (auto simp: recv_sink_def validate_lazy_def sink_Validate_def NewCertValidatorFromFile_def validator_of_def sink_Use_def
      server_Sink_def recv_broker_def command_broker_def broker_Timeout_def broker_Interval_def broker_Logger_def
      broker_Context_def Broker_def Lazy_def sink_Attr_def builder_simps bind_outcome_Value_iff)

lemma recv_exchange_keeps: "recv_exchange cfg snk = Inr snk' \<Longrightarrow> sk_middleware snk' = sk_middleware snk \<and>
    sk_tooMuch snk' = sk_tooMuch snk \<and> sk_retries snk' = sk_retries snk \<and> sk_rqConfig snk' = sk_rqConfig snk"
  by (auto simp: recv_exchange_def bind_kind_def on_exchange_def sink_Topic_def sink_Direct_def sink_Fanout_def
      sink_exchange_def Let_def split: if_splits)

lemma recv_sink_plain: "recv_sink (sink_Validate read pem parse check) cfg = Some (Value snk) \<Longrightarrow> sk_rqConfig snk = None"
  by (auto simp: recv_sink_def validate_lazy_def sink_Validate_def NewCertValidatorFromFile_def validator_of_def sink_Use_def
      server_Sink_def recv_broker_def command_broker_def broker_Timeout_def broker_Interval_def broker_Logger_def
      broker_Context_def Broker_def Lazy_def sink_Attr_def builder_simps bind_outcome_Value_iff split: if_splits sum.splits)

lemma recv_run_registers:
  assumes "recv_run (sink_Validate read pem parse check) hr cfg = Some (Value (Inr (f, regs)))"
  obtains snk snk1 where "recv_sink (sink_Validate read pem parse check) cfg = Some (Value snk)"
    "recv_exchange cfg snk = Inr snk1" "hr = Value (Inr f)" "regs = [SinkHandler (ManualAck snk1)]"
proof -
  from assms obtain snk snk1 where r: "recv_sink (sink_Validate read pem parse check) cfg = Some (Value snk)"
    "recv_exchange cfg snk = Inr snk1" "hr = Value (Inr f)" "regs = sink_TransactFunc snk1 []"
  proof -
    from assms obtain snk x where x: "recv_sink (sink_Validate read pem parse check) cfg = Some (Value snk)" "hr = Value x"
      "(case x of Inl e \<Rightarrow> Inl e | Inr f \<Rightarrow> (case recv_exchange cfg snk of
           Inl e \<Rightarrow> Inl e | Inr snk1 \<Rightarrow> Inr (f, sink_TransactFunc snk1 []))) = Inr (f, regs)"
      by (auto simp: recv_run_def bind_outcome_Value_iff)
    from x(3) obtain snk1 where "x = Inr f" "recv_exchange cfg snk = Inr snk1" "regs = sink_TransactFunc snk1 []"
      by (auto split: sum.split_asm)
    with x(1,2) show thesis by (intro that [of snk snk1]) simp_all
  qed
  from recv_sink_plain [OF r(1)] recv_exchange_keeps [OF r(2)] r(4) have "regs = [SinkHandler (ManualAck snk1)]"
    by (simp add: sink_TransactFunc_def sink_HandlerFunc_def ManualAck_def)
  with r(1-3) show thesis by (rule that)
qed

text \<open>
  C38: From one command to the other: with matching key and certificate, a message that
  \<open>amqp-send\<close> signs is accepted by \<open>amqp-recv\<close>. When it arrives, with whatever headers the broker
  added but not more than ten times dead-lettered, and is the first, the one sink \<open>amqp-recv\<close>
  registers lets it through its filter, prints its body, which is what was read from the sender's
  input (output format \<open>body\<close>, writing to the standard output succeeds), and acknowledges it.
\<close>

theorem signed_message_received:
  assumes "key_pair sha512 rsa_sign check key cert"
    and "send_writer (writer_Sign read pem parse sha512 rsa_sign) scfg = Some (Value (Inr wc))"
    and "so_Sign scfg \<noteq> ''''" and "loadPrivateKeyFile read pem parse (so_Sign scfg) = Some (Inr key)"
    and "recv_run (sink_Validate read' pem' parse' check)
      (recv_handler dump encode (\<lambda>_. None) execute parse_template stdin rcfg) rcfg = Some (Value (Inr (f, regs)))"
    and "vc_Verify rcfg \<noteq> ''''" and "loadCertificateFromFile read' pem' parse' (vc_Verify rcfg) = Some (Inr cert)"
    and "vc_OutType rcfg = ''body'' \<or> vc_OutType rcfg = ''plain''"
    and "send_message scfg wc uuid now inData hp = (m, hp1)"
    and "processMessage (wc_middleware wc) (msg_msg m) hp1 = Value (True, p, hp2)"
    and "relayed (wire hp2 p) d" and "sint (getRedelivery d) \<le> 10"
  shows "\<exists>snk d' r. regs = [SinkHandler snk] \<and> sink_message b snk (recv_transact b f 1) d [] =
      (Inr (), [Filtered 0 True, Printed inData, RanHandler d' None, Did (Ack (d_DeliveryTag d) False) r])"
proof -
  let ?d = "d\<lparr>d_RoutingKey := restoreRoutingKey d\<rparr>"
  have valid: "validator_Handle check \<lparr>mv_header = DefaultSignatureHeader, mv_cert = Some cert\<rparr> d = Value True"
    using assms(1) assms(10) [unfolded send_writer_signs [OF assms(2-4)]] assms(11) by (rule signed_last_validates)
  have "signer_Handle sha512 rsa_sign \<lparr>ms_header = DefaultSignatureHeader, ms_key = Some key\<rparr> (msg_msg m) hp1
      = Value (True, p, hp2)"
    using assms(10) [unfolded send_writer_signs [OF assms(2-4)]] by (auto simp: bind_outcome_Value_iff split: if_splits)
  then have "p_Body p = p_Body (msg_msg m)" by (simp add: signer_Handle_signs)
  with assms(11) sent_fields [OF assms(9)] have body: "d_Body d = inData" by (simp add: relayed_def)
  from assms(5) obtain snk0 snk1 where run: "recv_sink (sink_Validate read' pem' parse' check) rcfg = Some (Value snk0)"
    "recv_exchange rcfg snk0 = Inr snk1"
    "recv_handler dump encode (\<lambda>_. None) execute parse_template stdin rcfg = Value (Inr f)"
    "regs = [SinkHandler (ManualAck snk1)]" by (rule recv_run_registers)
  from run(3) assms(8) have f: "f ?d = Value inData"
    by (auto simp: recv_handler_def plainHandler_Handle_def body split: if_splits)
  note snk = recv_sink_validates [OF run(1) assms(6,7)] recv_exchange_keeps [OF run(2)]
  have "sink_verdict (ManualAck snk1) d []"
    using snk assms(12) by (simp add: sink_verdict_def retry_warned_def retry_expired_def ManualAck_def)
  moreover have "verdict_events (ManualAck snk1) d [] = []"
    using snk assms(12)
    by (simp add: verdict_events_def warning_asked_def retry_warned_def retry_expired_def ManualAck_def)
  ultimately have "sink_message b (ManualAck snk1) (recv_transact b f 1) d [] =
      (Inr (), [Filtered 0 True, Printed inData, RanHandler ?d None,
        Did (Ack (d_DeliveryTag d) False) (b [Filtered 0 True, Printed inData, RanHandler ?d None] (Ack (d_DeliveryTag d) False))])"
    using snk valid f
    by (simp add: sink_message_verdict ManualAck_def validator_filter_def and_then_def transact_handler_def
        recv_transact_cases ignore_error_call Let_def)
  with run(4) show ?thesis by blast
qed

definition demo_send :: send_config where
  "demo_send = \<lparr>so_URLs = [], so_Exchange = '''', so_ExchangeType = ''direct'', so_Sign = ''key.pem'', so_MessageID = ''id'',
     so_ReplyTo = '''', so_CorrelationID = '''', so_Headers = [], so_ContentType = '''', so_TTL = 0,
     so_RoutingKey = ''q'', so_Interval = 0, so_Timeout = 0, so_Quiet = False, so_Version = False\<rparr>"

definition demo_recv :: recv_config where
  "demo_recv = \<lparr>vc_URLs = [], vc_Exchange = '''', vc_ExchangeType = ''direct'', vc_Verify = ''cert.pem'', vc_Queue = ''q'',
     vc_Lazy = False, vc_OutType = ''body'', vc_RoutingKey = '''', vc_Interval = 0, vc_Timeout = 0, vc_Quiet = False, vc_Version = False\<rparr>"

lemma demo_key: "loadPrivateKeyFile (\<lambda>_. Inr ''k'') toy_pem (\<lambda>_. Inr (RsaKey CHR ''s'')) path = Some (Inr CHR ''s'')"
proof -
  have "loadPrivateKey toy_pem (\<lambda>_. Inr (RsaKey CHR ''s'')) ''k'' = Some (Inr CHR ''s'')"
    by (subst loadPrivateKey.simps) (simp add: toy_pem_def parse_private_key_def)
  then show ?thesis by (simp add: loadPrivateKeyFile_def wrap_result_def)
qed

lemma demo_cert: "loadCertificateFromFile (\<lambda>_. Inr ''c'') toy_pem (\<lambda>_. Inr CHR ''s'') path = Some (Inr CHR ''s'')"
proof -
  have "loadCertificate toy_pem (\<lambda>_. Inr CHR ''s'') ''c'' = Some (Inr CHR ''s'')"
    by (subst loadCertificate.simps) (simp add: toy_pem_def parse_certificate_def)
  then show ?thesis by (simp add: loadCertificateFromFile_def wrap_result_def)
qed

theorem signed_message_received_witness:
  "\<exists>f regs snk d d' r. recv_run (sink_Validate (\<lambda>_. Inr ''c'') toy_pem (\<lambda>_. Inr CHR ''s'') toy_check)
       (recv_handler (\<lambda>_. []) (\<lambda>_. Inr []) (\<lambda>_. None) (\<lambda>_ _. Inr []) (\<lambda>_. Inr ()) (Inr []) demo_recv) demo_recv =
       Some (Value (Inr (f, regs))) \<and> regs = [SinkHandler snk] \<and>
     sink_message named_broker snk (recv_transact named_broker f 1) d [] =
      (Inr (), [Filtered 0 True, Printed ''hello'', RanHandler d' None, Did (Ack 1 False) r])"
proof -
  let ?sign = "signer_Handle (\<lambda>x. x) toy_sign \<lparr>ms_header = DefaultSignatureHeader, ms_key = Some CHR ''s''\<rparr>"
  let ?wc = "writer_Use ?sign (DefaultKey ''q'' newWriter)"
  let ?snk = "sink_Use (validator_filter toy_check DefaultSignatureHeader CHR ''s'') (server_Sink (recv_broker demo_recv) ''q'')"
  let ?hp = "\<lparr>hp_table = (\<lambda>_. []), hp_next = 0\<rparr>"
  let ?f = "plainHandler_Handle (\<lambda>_. None)"
  have wc: "send_writer (writer_Sign (\<lambda>_. Inr ''k'') toy_pem (\<lambda>_. Inr (RsaKey CHR ''s'')) (\<lambda>x. x) toy_sign) demo_send = Some (Value (Inr ?wc))"
    by (simp add: send_writer_def demo_send_def writer_Sign_def NewSignerFromFile_def demo_key signer_of_def server_Publisher_def Let_def)
  have "recv_sink (sink_Validate (\<lambda>_. Inr ''c'') toy_pem (\<lambda>_. Inr CHR ''s'') toy_check) demo_recv = Some (Value ?snk)"
    by (simp add: recv_sink_def validate_lazy_def demo_recv_def sink_Validate_def NewCertValidatorFromFile_def demo_cert validator_of_def)
  then have run: "recv_run (sink_Validate (\<lambda>_. Inr ''c'') toy_pem (\<lambda>_. Inr CHR ''s'') toy_check)
       (recv_handler (\<lambda>_. []) (\<lambda>_. Inr []) (\<lambda>_. None) (\<lambda>_ _. Inr []) (\<lambda>_. Inr ()) (Inr []) demo_recv) demo_recv =
       Some (Value (Inr (?f, sink_TransactFunc ?snk [])))"
    by (simp add: recv_run_def recv_handler_def recv_exchange_def demo_recv_def)
  obtain m hp1 where m: "send_message demo_send ?wc ''u'' ZeroTime ''hello'' ?hp = (m, hp1)" by (meson surj_pair)
  then have fresh: "p_Headers (msg_msg m) = None" "hp1 = ?hp" "p_MessageId (msg_msg m) = ''id''" "p_Body (msg_msg m) = ''hello''"
    by (auto simp: send_message_def demo_send_def Message_ReplyTo_def Message_Type_def Message_TTL_def Message_ID_def
        Message_Bytes_def Prepare_def zero_publishing_def send_id_def)
  obtain p hp2 where p: "processMessage (wc_middleware ?wc) (msg_msg m) hp1 = Value (True, p, hp2)"
    "p_Headers (wire hp2 p) = Some [(DefaultSignatureHeader, VBytes ''sidhello'')]" "p_MessageId p = ''id''" "p_Body p = ''hello''"
    using fresh by (simp add: writer_Use_def DefaultKey_def newWriter_def signer_Handle_def sign_def toy_sign_def header_put_def
        map_put_def Let_def)
  define d where "d = demo_delivery\<lparr>d_Headers := p_Headers (wire hp2 p), d_MessageId := ''id'', d_Body := ''hello''\<rparr>"
  have relay: "relayed (wire hp2 p) d" using p(3,4) by (simp add: relayed_def d_def)
  have young: "sint (getRedelivery d) \<le> 10"
    using p(2) by (simp add: getRedelivery_def d_def map_get_def DefaultSignatureHeader_def del: wire_fields)
  have s: "so_Sign demo_send \<noteq> ''''" and v: "vc_Verify demo_recv \<noteq> ''''"
    and o: "vc_OutType demo_recv = ''body'' \<or> vc_OutType demo_recv = ''plain''" by (simp_all add: demo_send_def demo_recv_def)
  from signed_message_received [OF toy_key_pair wc s demo_key run v demo_cert o m p(1) relay young, of named_broker]
  obtain snk d' r where "sink_TransactFunc ?snk [] = [SinkHandler snk]"
    "sink_message named_broker snk (recv_transact named_broker ?f 1) d [] =
      (Inr (), [Filtered 0 True, Printed ''hello'', RanHandler d' None, Did (Ack (d_DeliveryTag d) False) r])" by blast
  with run show ?thesis
    by (intro exI [of _ ?f] exI [of _ "sink_TransactFunc ?snk []"] exI [of _ snk] exI [of _ d] exI [of _ d'] exI [of _ r])
      (simp add: d_def demo_delivery_def)
qed

end
