(* ===== verification/Spec2Isabelle.thy ===== *)
theory Spec2Isabelle
  imports Queue_Threads Publisher Requeuer Sink Certs Server Rpc Retry_Cycle Header_Utils Exec_Transaction Send_Tool
begin

text \<open>
  A verification library for fluent-amqp, a Go library that keeps publishers and consumers of an
  AMQP broker running across reconnections, with its three commands. This file is the root: it
  imports everything and says how the theories correspond to the code.

  \<^bold>\<open>The program.\<close> A \<open>Server\<close> (\<open>amqp.go\<close>) dials the first reachable broker and, as long as the
  connection lasts, runs one goroutine with a channel of its own for every registered
  \<open>StateHandler\<close>; when one of them ends, all are cancelled, and the server dials again after a
  pause. Three kinds of handlers are registered by fluent builders: publishers
  (\<open>writer.go\<close>) with a queue of outgoing messages (\<open>internal/message_queue.go\<close>), consumers or
  sinks (\<open>sink.go\<close>) with retry limits, filters and transactions, and requeuers (\<open>requeuer.go\<close>),
  which keep failed messages in a queue that dead-letters them back after a delay. On top of
  these are signatures (\<open>certs.go\<close>), remote calls (\<open>rpc.go\<close>), helpers (\<open>utils.go\<close>) and the
  commands \<open>amqp-exec\<close>, \<open>amqp-recv\<close> and \<open>amqp-send\<close>.

  \<^bold>\<open>The theories.\<close>

  \<^item> \<open>Fluent_Prelude\<close>: errors, panics (\<open>outcome\<close>), channels, maps, decimal numbers, the locale
    \<open>invariant_system\<close> for components that are step relations, and the collections
    \<open>builder_simps\<close> and \<open>world_simps\<close>.
  \<^item> \<open>Amqp_Model\<close>: header values, deliveries and publishings, the calls of a channel with the
    history of what was called and answered, sequences of calls that stop at the first error,
    and the plan such a sequence carries out. The broker is a function argument of every
    definition that calls it: any answers, depending on the whole history, are allowed.
  \<^item> \<open>Message_Queue\<close>: \<open>Put\<close>, \<open>Peek\<close>, \<open>Commit\<close>, \<open>Len\<close> and \<open>initOnce\<close> as functions on the state,
    with the contract \<open>message_fifo\<close> they satisfy. \<open>Notify\<close>: the locale \<open>wakeup\<close> (an
    \<open>invariant_system\<close> with a producer, a consumer that parks and a one-place token), whose
    lemma is that no wake-up is lost. \<open>Queue_Threads\<close>: the goroutines around a queue, as an
    interpretation of \<open>wakeup\<close>, and the double-checked initialisation.
  \<^item> \<open>Writer\<close>: configuration, message builder, \<open>Publish\<close>, \<open>PublishWait\<close>, \<open>TrySend\<close> and the parts of the
    publisher's loop; header maps are shared, so they live in a heap. \<open>Publisher\<close>: clients and
    loop as the relation \<open>writer_step\<close>, with the invariant \<open>writer_inv\<close> that ties the queue, the
    answer channels, what clients received and the log of attempts together, and the lemmas that
    tie the log to the broker's history.
  \<^item> \<open>Requeuer\<close>: the set-up, the worker and its callers as \<open>rq_step\<close>, with the header maps of
    deliveries and copies in a heap, the contract \<open>requeuer\<close> a sink relies on, and one call run to
    its end (\<open>Requeue_run\<close>), which agrees with \<open>rq_step\<close> in both directions
    (\<open>requeue_run_possible\<close> and a property). \<open>Sink\<close>: builder, set-up, the
    decision on one delivery, the loop and the handler of a transaction; its lemmas on
    transactions are proved inside the \<open>requeuer\<close> contract. \<open>Retry_Cycle\<close>: sink, requeuer and a
    broker that counts dead-letterings composed, round after round.
  \<^item> \<open>Certs\<close>: loading keys and certificates, signer and validator. \<open>Broker_Config\<close>: \<open>config.go\<close> and
    what the finishing methods register.
  \<^item> \<open>Connection\<close>: masking passwords, dialling, creating a channel. \<open>Server\<close>: the main loop,
    \<open>streamHandlers\<close>, the handlers' goroutines and the callers of \<open>handle\<close> as \<open>server_step\<close>, the
    documented state machine it refines, and the second interpretation of \<open>wakeup\<close>.
  \<^item> \<open>Rpc\<close>: the callers in \<open>Raw\<close>, the table of calls, \<open>onMessage\<close>, the release at shutdown, as
    \<open>rpc_step\<close>, which runs along with \<open>server_step\<close> and with the \<open>writer_step\<close> of the RPC's
    publisher; a reply is read only by a caller \<open>Raw\<close> has returned to. \<open>Header_Utils\<close>: \<open>utils.go\<close>, with Go's conversions to \<open>int64\<close> and \<open>float64\<close>
    at bit level.
  \<^item> \<open>Command_Tools\<close>, \<open>Exec_Tool\<close>, \<open>Exec_Transaction\<close>, \<open>Recv_Tool\<close>, \<open>Send_Tool\<close>: the commands. The
    transaction of \<open>amqp-exec\<close> runs along with \<open>writer_step\<close>; what \<open>amqp-recv\<close> prints, and a panic of
    its handler, are events of the history; the way of a signed message from \<open>amqp-send\<close> to
    \<open>amqp-recv\<close> goes through writer, signer, validator, sink and printing.

  \<^bold>\<open>What the properties show.\<close> Nothing is lost: what a publisher was given is published in order or
  still queued, the channel a client waits on is closed exactly when its message was published or
  rejected, a transaction acknowledges only what was processed or requeued, every delivery is
  disposed of once. Published and accepted mean here that \<open>ch.Publish\<close> returned nil: the library
  asks for no publisher confirms, so nothing stronger holds of the program. Nothing panics or blocks for good where it should not: publisher, requeue
  worker, reply channels, the notification of the queue and of the handler list. The server
  follows its documented states, serves every handler, leaves no goroutine behind and can always
  finish. Signatures validate exactly what was signed, up to the boundary between identifier and
  body; conversions and limits have the stated bounds. Some theorems state
  what the code does and a reader might not expect: \<open>signature_boundary_shift\<close>, \<open>masking_gaps\<close>,
  \<open>server_follows_document\<close>, \<open>shutdown_releases_callers\<close>, \<open>late_call_waits_forever\<close>,
  \<open>first_stop_cancels_all\<close>, \<open>program_environment\<close>.

  \<^bold>\<open>Time, loops and fuel.\<close> A \<open>select\<close> is a choice: a step relation takes any ready case, a
  sequential model lists what the loop takes. Loops over lists are structural. The loops over PEM
  blocks are partial functions, whose result is proved for every file the decoder consumes;
  \<open>scan_lines\<close> and \<open>mask_password\<close> terminate by the length of the text. Only \<open>retry_cycle\<close> has
  fuel, and its theorem says how much is enough: two more rounds than the limit. Durations are
  \<open>64 word\<close> nanoseconds; the passage of time itself is not modelled, a timer may fire at any step.

  \<^bold>\<open>Hypotheses about code that is not here.\<close> The AMQP library and the broker (any answers; where a
  theorem needs a broker that accepts, counts dead-letterings or keeps headers, that is a named
  hypothesis: \<open>accepting\<close>, \<open>counts_deaths\<close>, \<open>relayed\<close>), \<open>pem.Decode\<close> (\<open>pem_file\<close>), the x509 parsers
  and RSA (\<open>key_pair\<close>: the certificate accepts exactly the signature made with the key), JSON,
  identifiers of \<open>uuid\<close> (new to the table of calls), users' handlers (functions of the history). Of
  the standard library what the code uses is modelled: channels, \<open>bufio.Scanner\<close>, \<open>fmt.Sprint\<close>.

  \<^bold>\<open>Not modelled.\<close> Logging and command-line parsing (no state of the program depends on them);
  the example program and \<open>flags/writer.go\<close>, which have no logic; races on single memory words (each
  step is atomic between synchronisation points, although \<open>streamHandlers\<close> reads the handler list
  without its lock); the memory and the size of queues; panics of users' filters and transactions,
  which end the process; in \<open>amqp-exec\<close>, a program that stops because nobody reads its output.
\<close>

end
